theory Spec2Isabelle
  imports Main
begin

section \<open>JavaScript strings\<close>

text \<open>
  A JavaScript string is modelled as a \<^typ>\<open>string\<close>: the list of the bytes of its
  UTF-8 text. A character above U+007F is the two, three or four bytes of its encoding,
  each of them 128 or more.
\<close>

definition toLowerChar :: "char \<Rightarrow> char" where
  "toLowerChar c =
     (let n = (of_char c :: nat) in if 65 \<le> n \<and> n \<le> 90 then char_of (n + 32) else c)"

text \<open>
  \<^verbatim>\<open>String.prototype.toLowerCase\<close>. The capital letters A to Z become a to z. Two
  characters above U+007F become ASCII letters: U+212A (KELVIN SIGN, bytes E2 84 AA)
  becomes k, and U+0130 (bytes C4 B0) becomes i followed by U+0307 (bytes CC 87). Every
  other character above U+007F is kept as it is: JavaScript maps it to itself or to
  another character above U+007F, and the program only compares the result with ASCII
  words and searches it for ASCII words.
\<close>

fun toLowerCase :: "string \<Rightarrow> string" where
  "toLowerCase (a # b # c # s) =
     (if a = CHR 0xE2 \<and> b = CHR 0x84 \<and> c = CHR 0xAA then CHR ''k'' # toLowerCase s
      else if a = CHR 0xC4 \<and> b = CHR 0xB0
        then CHR ''i'' # CHR 0xCC # CHR 0x87 # toLowerCase (c # s)
      else toLowerChar a # toLowerCase (b # c # s))"
| "toLowerCase [a, b] =
     (if a = CHR 0xC4 \<and> b = CHR 0xB0 then [CHR ''i'', CHR 0xCC, CHR 0x87]
      else toLowerChar a # toLowerCase [b])"
| "toLowerCase [a] = [toLowerChar a]"
| "toLowerCase [] = []"

text \<open>The class \<^verbatim>\<open>\w\<close> of a regular expression: letters, digits and the underscore.\<close>

definition isWordChar :: "char \<Rightarrow> bool" where
  "isWordChar c =
     (let n = (of_char c :: nat) in
        (48 \<le> n \<and> n \<le> 57) \<or> (65 \<le> n \<and> n \<le> 90) \<or> n = 95 \<or> (97 \<le> n \<and> n \<le> 122))"

text \<open>
  White space as \<^verbatim>\<open>String.prototype.trim\<close> removes it, by the length of its encoding.
  One byte: tab, line feed, vertical tab, form feed, carriage return, space. Two bytes:
  U+00A0 (C2 A0). Three bytes: U+1680 (E1 9A 80), U+2000 to U+200A (E2 80 80 to
  E2 80 8A), U+2028 and U+2029 (E2 80 A8, E2 80 A9), U+202F (E2 80 AF), U+205F
  (E2 81 9F), U+3000 (E3 80 80) and U+FEFF (EF BB BF).
\<close>

definition isSpace1 :: "char \<Rightarrow> bool" where
  "isSpace1 a = (let n = (of_char a :: nat) in (9 \<le> n \<and> n \<le> 13) \<or> n = 32)"

definition isSpace2 :: "char \<Rightarrow> char \<Rightarrow> bool" where
  "isSpace2 a b = (a = CHR 0xC2 \<and> b = CHR 0xA0)"

definition isSpace3 :: "char \<Rightarrow> char \<Rightarrow> char \<Rightarrow> bool" where
  "isSpace3 a b c =
     (a = CHR 0xE1 \<and> b = CHR 0x9A \<and> c = CHR 0x80
      \<or> a = CHR 0xE2 \<and> b = CHR 0x80
          \<and> (128 \<le> (of_char c :: nat) \<and> (of_char c :: nat) \<le> 138
              \<or> c = CHR 0xA8 \<or> c = CHR 0xA9 \<or> c = CHR 0xAF)
      \<or> a = CHR 0xE2 \<and> b = CHR 0x81 \<and> c = CHR 0x9F
      \<or> a = CHR 0xE3 \<and> b = CHR 0x80 \<and> c = CHR 0x80
      \<or> a = CHR 0xEF \<and> b = CHR 0xBB \<and> c = CHR 0xBF)"

text \<open>\<^verbatim>\<open>String.prototype.trimStart\<close>: white space is removed from the start, one
  character after the other.\<close>

fun trimStart :: "string \<Rightarrow> string" where
  "trimStart (a # b # c # s) =
     (if isSpace1 a then trimStart (b # c # s)
      else if isSpace2 a b then trimStart (c # s)
      else if isSpace3 a b c then trimStart s
      else a # b # c # s)"
| "trimStart [a, b] =
     (if isSpace1 a then trimStart [b] else if isSpace2 a b then [] else [a, b])"
| "trimStart [a] = (if isSpace1 a then [] else [a])"
| "trimStart [] = []"

text \<open>\<^verbatim>\<open>String.prototype.trimEnd\<close>, on the reversed string: its first byte is the last
  byte of the text, so the bytes of a character come last byte first.\<close>

fun trimEndRev :: "string \<Rightarrow> string" where
  "trimEndRev (c # b # a # s) =
     (if isSpace1 c then trimEndRev (b # a # s)
      else if isSpace2 b c then trimEndRev (a # s)
      else if isSpace3 a b c then trimEndRev s
      else c # b # a # s)"
| "trimEndRev [c, b] =
     (if isSpace1 c then trimEndRev [b] else if isSpace2 b c then [] else [c, b])"
| "trimEndRev [c] = (if isSpace1 c then [] else [c])"
| "trimEndRev [] = []"

definition trimEnd :: "string \<Rightarrow> string" where
  "trimEnd s = rev (trimEndRev (rev s))"

definition trim :: "string \<Rightarrow> string" where
  "trim s = trimEnd (trimStart s)"

text \<open>\<^verbatim>\<open>s.startsWith(p)\<close>\<close>

fun startsWith :: "string \<Rightarrow> string \<Rightarrow> bool" where
  "startsWith s [] = True"
| "startsWith [] (p # ps) = False"
| "startsWith (c # cs) (p # ps) = (c = p \<and> startsWith cs ps)"

text \<open>A regular expression that is a plain word, tested against a string: the word occurs
  somewhere in it.\<close>

fun includes_str :: "string \<Rightarrow> string \<Rightarrow> bool" where
  "includes_str [] p = (p = [])"
| "includes_str (c # cs) p = (startsWith (c # cs) p \<or> includes_str cs p)"

text \<open>\<^verbatim>\<open>s.split(sep)\<close> for a separator of one character: always at least one field.\<close>

fun split_on :: "char \<Rightarrow> string \<Rightarrow> string list" where
  "split_on sep [] = [[]]"
| "split_on sep (c # cs) =
     (if c = sep then [] # split_on sep cs
      else (case split_on sep cs of
              [] \<Rightarrow> [[c]]
            | field # fields \<Rightarrow> (c # field) # fields))"

text \<open>\<^verbatim>\<open>x || d\<close> on an optional string: \<^verbatim>\<open>null\<close>, \<^verbatim>\<open>undefined\<close> and the empty string
  are falsy.\<close>

definition or_default :: "string option \<Rightarrow> string \<Rightarrow> string" where
  "or_default x d = (case x of None \<Rightarrow> d | Some v \<Rightarrow> if v = [] then d else v)"

text \<open>\<^verbatim>\<open>y ?? x\<close>: the reducer of every channel but \<^verbatim>\<open>messages\<close>.\<close>

definition nullish :: "'a option \<Rightarrow> 'a option \<Rightarrow> 'a option" where
  "nullish y x = (case y of None \<Rightarrow> x | Some v \<Rightarrow> Some v)"

section \<open>The prompt templates\<close>

definition INTRODUCTION_TEMPLATE :: string where
  \<open>INTRODUCTION_TEMPLATE = ''You are Adaptic AI, an intelligent assistant for the Adaptic Protocol - the revolutionary AI-powered redeemable NFT platform on the Massa blockchain.

Your role is to introduce users to Adaptic and its capabilities. When users ask about the platform, explain:

**What is Adaptic?**
Adaptic transforms digital ownership into dynamic, self-managing assets through AI-powered autonomous contracts. It's not just about owning NFTs - it's about owning intelligent digital assets that can:
- Self-manage through AI automation
- Auto-update based on real-world events
- Generate liquidity via DeFi integrations
- Bridge digital assets with real-world utility

**What's Possible with Adaptic?**
- Gaming assets that evolve based on player performance
- Event tickets that unlock exclusive content
- Financial instruments that adapt to market conditions
- Digital collectibles with real-world redemption value

**Current Implementation - Wave 2 of Wave Hacks:**
Right now, we have a special NFT ticketing contract implementation that you can deploy and test! This is our showcase for Wave 2 of the 5-week Wave Hacks competition.

**Benefits for Users:**
- Deploy smart contracts through simple conversation
- No coding knowledge required
- Powered by Massa blockchain's speed and efficiency
- AI-driven contract customization
- Real-world utility integration

Would you like to try deploying an NFT ticketing contract for your event? Just tell me about your event and I'll help you create it!''\<close>

definition EVENT_EXTRACTION_TEMPLATE :: string where
  \<open>EVENT_EXTRACTION_TEMPLATE = ''You are Adaptic AI, helping users create NFT ticketing contracts.

Your task is to extract TWO pieces of information from the user's input:
1. **Event Name** (string) - What is the event called?
2. **Event Date** (date) - When is the event happening?

Current status:
- Event Name: {event_name}
- Event Date: {event_date}

IMPORTANT GUIDELINES:
- If the user mentions a date like "25th of May" or "tomorrow" or "next Friday", ask them to confirm the YEAR and provide the date in DD/MM/YYYY format
- If they say "May 25th" ask "Can you confirm the year? Please provide the date as DD/MM/YYYY"
- If they give a relative date like "tomorrow" or "next week", ask for the specific date in DD/MM/YYYY format
- Be helpful and conversational, but always get the exact date format needed
- Only ask for what's missing - don't repeat information you already have

If you have BOTH the event name (as a clear string) AND the event date (in DD/MM/YYYY format), respond with:
"EXTRACTION_COMPLETE: {event_name} | {event_date}"

Otherwise, ask for the missing information in a friendly way.''\<close>

subsection \<open>formatTemplate\<close>

text \<open>
  \<^verbatim>\<open>template.replace(/\{(\w+)\}/g, (match, key) => data[key] || match)\<close>.
  A match starts at an opening brace that is followed by a non-empty run of word
  characters and a closing brace; the run is as long as it can be, since a closing brace
  is no word character. \<open>match_placeholder\<close> gives the key and the text after the match.
\<close>

fun match_placeholder :: "string \<Rightarrow> (string \<times> string) option" where
  "match_placeholder [] = None"
| "match_placeholder (c # cs) =
     (if c = CHR ''{'' then
        (case dropWhile isWordChar cs of
           [] \<Rightarrow> None
         | d # rest \<Rightarrow>
             if takeWhile isWordChar cs \<noteq> [] \<and> d = CHR ''}''
             then Some (takeWhile isWordChar cs, rest) else None)
      else None)"

text \<open>The global replace: matches are found from left to right, they do not overlap, and
  a replacement is not scanned again. \<open>f match key\<close> is the callback.\<close>

function replace_placeholders :: "(string \<Rightarrow> string \<Rightarrow> string) \<Rightarrow> string \<Rightarrow> string" where
  "replace_placeholders f [] = []"
| "replace_placeholders f (c # cs) =
     (case match_placeholder (c # cs) of
        None \<Rightarrow> c # replace_placeholders f cs
      | Some (key, rest) \<Rightarrow> f (CHR ''{'' # key @ ''}'') key @ replace_placeholders f rest)"
  by pat_completeness auto
termination
proof -
  have shorter: "length rest < Suc (length cs)"
    if "dropWhile isWordChar cs = d # rest" for cs rest :: string and d
  proof -
    have "length (dropWhile isWordChar cs) \<le> length cs"
      by (rule length_dropWhile_le)
    with that show ?thesis by simp
  qed
  show ?thesis
    by (relation "measure (\<lambda>(f, s). length s)")
       (auto split: if_splits list.splits dest: shorter)
qed

text \<open>
  \<^verbatim>\<open>data[key]\<close> reads an own property of the object or, when there is none, a member it
  inherits from \<^verbatim>\<open>Object.prototype\<close>. An inherited member is a function or an object,
  hence truthy, and \<^verbatim>\<open>replace\<close> converts what the callback returns to a string. The
  table gives that string for each inherited name under Node.js.
\<close>

definition native_function :: "string \<Rightarrow> string" where
  "native_function n = ''function '' @ n @ ''() { [native code] }''"

definition object_prototype :: "string \<Rightarrow> string option" where
  "object_prototype key =
     (if key = ''constructor'' then Some (native_function ''Object'')
      else if key = ''__proto__'' then Some ''[object Object]''
      else if key \<in> set [''__defineGetter__'', ''__defineSetter__'', ''hasOwnProperty'',
                          ''__lookupGetter__'', ''__lookupSetter__'', ''isPrototypeOf'',
                          ''propertyIsEnumerable'', ''toString'', ''valueOf'', ''toLocaleString'']
      then Some (native_function key)
      else None)"

definition template_callback :: "(string \<Rightarrow> string option) \<Rightarrow> string \<Rightarrow> string \<Rightarrow> string" where
  "template_callback data match key =
     (case data key of
        Some v \<Rightarrow> if v = [] then match else v
      | None \<Rightarrow> (case object_prototype key of Some text \<Rightarrow> text | None \<Rightarrow> match))"

definition formatTemplate :: "string \<Rightarrow> (string \<Rightarrow> string option) \<Rightarrow> string" where
  "formatTemplate template data = replace_placeholders (template_callback data) template"

section \<open>The conversation state\<close>

datatype BaseMessage = HumanMessage string | AIMessage string

record EventDetails =
  details_name :: string
  details_date :: string

record ContractDetails =
  ticketPrice :: string
  maxSupply :: string
  transferable :: bool
  refundable :: bool

record TicketMetadata =
  description :: string
  image :: string
  attributes :: "(string \<times> string) list"

record NftTicketObject =
  ticket_type :: string
  eventDetails :: EventDetails
  contractDetails :: ContractDetails
  metadata :: TicketMetadata
  status :: string
  createdAt :: string

text \<open>
  \<^verbatim>\<open>AdapticState\<close>, one field per channel of the graph. A field that is \<^verbatim>\<open>null\<close> or
  \<^verbatim>\<open>undefined\<close> is \<open>None\<close>. The request always gives \<open>input\<close> and \<open>chat_history\<close>.
\<close>

record AdapticState =
  input :: string
  chat_history :: "BaseMessage list"
  messages :: "string list"
  operation :: "string option"
  currentStep :: "string option"
  eventName :: "string option"
  eventDate :: "string option"
  nftTicketObject :: "NftTicketObject option"

text \<open>What a node returns: the fields of the state the nodes of this graph write. A
  field the node does not mention is \<open>None\<close>; every node gives \<open>messages\<close>.\<close>

record NodeOutput =
  out_operation :: "string option"
  out_currentStep :: "string option"
  out_eventName :: "string option"
  out_eventDate :: "string option"
  out_nftTicketObject :: "NftTicketObject option"
  out_messages :: "string list"

text \<open>The state a run starts from: the defaults of \<^verbatim>\<open>graphConfig.channels\<close>, with the
  request's \<^verbatim>\<open>{ input, chat_history }\<close> written over them.\<close>

definition initial_state :: "string \<Rightarrow> BaseMessage list \<Rightarrow> AdapticState" where
  "initial_state inp hist =
     \<lparr>input = inp, chat_history = hist, messages = [], operation = None,
      currentStep = Some ''initial'', eventName = None, eventDate = None,
      nftTicketObject = None\<rparr>"

text \<open>The reducers of \<^verbatim>\<open>graphConfig.channels\<close>: \<open>x\<close> is the state, \<open>y\<close> what the node
  returned.\<close>

definition apply_update :: "AdapticState \<Rightarrow> NodeOutput \<Rightarrow> AdapticState" where
  "apply_update x y =
     x\<lparr>messages := messages x @ out_messages y,
       operation := nullish (out_operation y) (operation x),
       currentStep := nullish (out_currentStep y) (currentStep x),
       eventName := nullish (out_eventName y) (eventName x),
       eventDate := nullish (out_eventDate y) (eventDate x),
       nftTicketObject := nullish (out_nftTicketObject y) (nftTicketObject x)\<rparr>"

section \<open>The nodes of the graph\<close>

text \<open>The object a node returns, before the fields it names are filled in.\<close>

definition no_update :: NodeOutput where
  "no_update = \<lparr>out_operation = None, out_currentStep = None, out_eventName = None,
     out_eventDate = None, out_nftTicketObject = None, out_messages = []\<rparr>"

text \<open>
  A model call is \<^verbatim>\<open>prompt.pipe(llm).invoke({ input, chat_history })\<close>: the system text, the
  earlier turns and the user's input. The language model is a parameter \<open>invoke\<close> of
  the nodes; it answers with the reply's text (\<open>Inr\<close>) or fails (\<open>Inl\<close>, with the
  \<^verbatim>\<open>message\<close> of the error thrown). A node gives the calls it made and either the
  failure or what it returns.
\<close>

type_synonym model_call = "string \<times> BaseMessage list \<times> string"

type_synonym language_model = "model_call \<Rightarrow> string + string"

type_synonym node_result = "model_call list \<times> (string + NodeOutput)"

text \<open>\<^verbatim>\<open>/create|event|ticket|nft|deploy|contract/.test(input)\<close>\<close>

definition isEventCreation :: "string \<Rightarrow> bool" where
  "isEventCreation inp =
     (includes_str inp ''create'' \<or> includes_str inp ''event'' \<or> includes_str inp ''ticket''
      \<or> includes_str inp ''nft'' \<or> includes_str inp ''deploy'' \<or> includes_str inp ''contract'')"

definition introduction_node :: "language_model \<Rightarrow> AdapticState \<Rightarrow> node_result" where
  "introduction_node invoke state =
     (if isEventCreation (toLowerCase (input state)) then
        ([], Inr (no_update\<lparr>out_operation := Some ''event_creation'',
                             out_currentStep := Some ''event_extraction'',
                             out_messages := []\<rparr>))
      else
        (let call = (INTRODUCTION_TEMPLATE, chat_history state, input state) in
           ([call],
            case invoke call of
              Inl err \<Rightarrow> Inl err
            | Inr content \<Rightarrow>
                Inr (no_update\<lparr>out_operation := Some ''introduction'',
                                 out_messages := [content],
                                 out_currentStep := Some ''introduction_complete''\<rparr>))))"

definition templateData :: "AdapticState \<Rightarrow> string \<Rightarrow> string option" where
  "templateData state =
     [''event_name'' \<mapsto> or_default (eventName state) ''Missing'',
      ''event_date'' \<mapsto> or_default (eventDate state) ''Missing'']"

text \<open>\<^verbatim>\<open>responseText.replace("EXTRACTION_COMPLETE:", "").split("|").map(p => p.trim())\<close>, for a
  reply that starts with the marker: the marker replaced is the one at the start.\<close>

definition extraction_parts :: "string \<Rightarrow> string list" where
  "extraction_parts responseText =
     map trim (split_on CHR ''|'' (drop (length ''EXTRACTION_COMPLETE:'') responseText))"

text \<open>\<^verbatim>\<open>parts[i]\<close>: \<^verbatim>\<open>undefined\<close> beyond the end of the array.\<close>

definition part :: "string list \<Rightarrow> nat \<Rightarrow> string option" where
  "part parts i = (if i < length parts then Some (parts ! i) else None)"

definition event_extraction_node :: "language_model \<Rightarrow> AdapticState \<Rightarrow> node_result" where
  "event_extraction_node invoke state =
     (let formattedTemplate = formatTemplate EVENT_EXTRACTION_TEMPLATE (templateData state);
          call = (formattedTemplate, chat_history state, input state) in
        ([call],
         case invoke call of
           Inl err \<Rightarrow> Inl err
         | Inr responseText \<Rightarrow>
             if startsWith responseText ''EXTRACTION_COMPLETE:'' then
               (let parts = extraction_parts responseText in
                  Inr (no_update\<lparr>out_operation := Some ''event_creation'',
                                   out_currentStep := Some ''nft_creation'',
                                   out_eventName := part parts 0,
                                   out_eventDate := part parts 1,
                                   out_messages := []\<rparr>))
             else
               Inr (no_update\<lparr>out_operation := Some ''event_creation'',
                                out_currentStep := Some ''event_extraction'',
                                out_messages := [responseText]\<rparr>)))"

text \<open>The node reads the clock for \<^verbatim>\<open>createdAt\<close>: \<open>now\<close> is
  \<^verbatim>\<open>new Date().toISOString()\<close>.\<close>

definition make_ticket :: "string \<Rightarrow> AdapticState \<Rightarrow> NftTicketObject" where
  "make_ticket now state =
     \<lparr>ticket_type = ''nft_ticket'',
      eventDetails = \<lparr>details_name = or_default (eventName state) ''Unknown Event'',
                      details_date = or_default (eventDate state) ''Unknown Date''\<rparr>,
      contractDetails = \<lparr>ticketPrice = ''0.1'', maxSupply = ''100'',
                         transferable = True, refundable = False\<rparr>,
      metadata = \<lparr>description = ''NFT Ticket for '' @ or_default (eventName state) ''Event'',
                  image = [],
                  attributes = [(''Event Type'', ''General Admission''),
                                (''Date'', or_default (eventDate state) ''TBD'')]\<rparr>,
      status = ''ready_to_deploy'',
      createdAt = now\<rparr>"

text \<open>The summary message. Its first eight bytes are the source's first four characters,
  which are not ASCII.\<close>

definition ticket_message :: "NftTicketObject \<Rightarrow> string" where
  \<open>ticket_message t =
     [CHR 0xC3, CHR 0xB0, CHR 0xC5, CHR 0xB8, CHR 0xC5, CHR 0xBD, CHR 0xC2, CHR 0xAB]
     @ '' Perfect! I've prepared your NFT ticketing contract. Here are the details:''
     @ ''\<newline>\<newline>**Event:** '' @ details_name (eventDetails t)
     @ ''\<newline>**Date:** '' @ details_date (eventDetails t)
     @ ''\<newline>**Ticket Price:** '' @ ticketPrice (contractDetails t) @ '' MASSA''
     @ ''\<newline>**Max Supply:** '' @ maxSupply (contractDetails t) @ '' tickets''
     @ ''\<newline>\<newline>You can now deploy this NFT ticketing contract to the Massa blockchain! The contract will allow users to mint tickets as NFTs for your event.''\<close>

definition nft_creation_node :: "string \<Rightarrow> AdapticState \<Rightarrow> node_result" where
  "nft_creation_node now state =
     (let nftTicket = make_ticket now state in
        ([], Inr (no_update\<lparr>out_operation := Some ''event_creation'',
                             out_currentStep := Some ''completed'',
                             out_nftTicketObject := Some nftTicket,
                             out_messages := [ticket_message nftTicket]\<rparr>)))"

section \<open>The compiled graph\<close>

text \<open>
  The graph starts at \<^verbatim>\<open>introduction_node\<close>. After a node has run, its output is merged
  into the state by the reducers and the edges choose the next node from the merged
  state; \<open>None\<close> is \<^verbatim>\<open>END\<close>.
\<close>

definition run_node :: "language_model \<Rightarrow> string \<Rightarrow> string \<Rightarrow> AdapticState \<Rightarrow> node_result" where
  "run_node invoke now nodeName state =
     (if nodeName = ''introduction_node'' then introduction_node invoke state
      else if nodeName = ''event_extraction_node'' then event_extraction_node invoke state
      else nft_creation_node now state)"

definition next_node :: "string \<Rightarrow> AdapticState \<Rightarrow> string option" where
  "next_node nodeName state =
     (if nodeName = ''introduction_node'' then
        (if operation state = Some ''event_creation'' then Some ''event_extraction_node''
         else None)
      else if nodeName = ''event_extraction_node'' then
        (if currentStep state = Some ''nft_creation'' then Some ''nft_creation_node''
         else None)
      else None)"

text \<open>
  What \<^verbatim>\<open>graph.stream(initialState, { streamMode: "updates", recursionLimit: 100 })\<close>
  gives: the updates in the order the nodes ran, each under its node's name, and the
  failure that ended the stream, if one did. The states the run went through and the
  model calls it made are recorded beside them. The limit of 100 steps is the fuel of
  the recursion; this graph has three nodes and no cycle, and a run takes three steps at
  most.
\<close>

record GraphRun =
  run_updates :: "(string \<times> NodeOutput) list"
  run_failure :: "string option"
  run_states :: "AdapticState list"
  run_calls :: "model_call list"

definition recursionLimit :: nat where
  "recursionLimit = 100"

fun run_from :: "nat \<Rightarrow> language_model \<Rightarrow> string \<Rightarrow> string \<Rightarrow> AdapticState \<Rightarrow> GraphRun" where
  "run_from 0 invoke now nodeName state =
     \<lparr>run_updates = [], run_failure = Some ''Recursion limit of 100 reached'',
      run_states = [], run_calls = []\<rparr>"
| "run_from (Suc fuel) invoke now nodeName state =
     (case run_node invoke now nodeName state of
        (calls, Inl err) \<Rightarrow>
          \<lparr>run_updates = [], run_failure = Some err, run_states = [], run_calls = calls\<rparr>
      | (calls, Inr out) \<Rightarrow>
          (let state' = apply_update state out;
               rest = (case next_node nodeName state' of
                         None \<Rightarrow> \<lparr>run_updates = [], run_failure = None,
                                   run_states = [], run_calls = []\<rparr>
                       | Some n \<Rightarrow> run_from fuel invoke now n state')
           in \<lparr>run_updates = (nodeName, out) # run_updates rest,
               run_failure = run_failure rest,
               run_states = state' # run_states rest,
               run_calls = calls @ run_calls rest\<rparr>))"

definition graph_stream :: "language_model \<Rightarrow> string \<Rightarrow> AdapticState \<Rightarrow> GraphRun" where
  "graph_stream invoke now state0 =
     (let r = run_from recursionLimit invoke now ''introduction_node'' state0
      in r\<lparr>run_states := state0 # run_states r\<rparr>)"

section \<open>The request handler\<close>

subsection \<open>convertChatHistoryToMessages\<close>

definition convertRole :: "string \<times> string \<Rightarrow> BaseMessage" where
  "convertRole p =
     (case p of (role, content) \<Rightarrow>
        (let r = toLowerCase role in
           if r = ''human'' then HumanMessage content
           else if r = ''assistant'' \<or> r = ''ai'' then AIMessage content
           else HumanMessage content))"

definition convertChatHistoryToMessages :: "(string \<times> string) list \<Rightarrow> BaseMessage list" where
  "convertChatHistoryToMessages history = map convertRole history"

text \<open>The lines \<^verbatim>\<open>console.warn\<close> writes while the history is converted: one for each
  role of the \<^verbatim>\<open>default\<close> case.\<close>

definition roleWarning :: "string \<times> string \<Rightarrow> string list" where
  \<open>roleWarning p =
     (case p of (role, content) \<Rightarrow>
        (let r = toLowerCase role in
           if r = ''human'' \<or> r = ''assistant'' \<or> r = ''ai'' then []
           else [''Unknown role "'' @ role @ ''" in chat history. Treating as human message.'']))\<close>

definition chatHistoryWarnings :: "(string \<times> string) list \<Rightarrow> string list" where
  "chatHistoryWarnings history = concat (map roleWarning history)"

subsection \<open>The wire events\<close>

text \<open>
  One constructor for each \<^verbatim>\<open>type\<close> of event the handler writes: \<^verbatim>\<open>loading\<close>,
  \<^verbatim>\<open>message\<close> and \<^verbatim>\<open>wager\<close> carry a \<^verbatim>\<open>content\<close> (and \<^verbatim>\<open>wager\<close> the parsed object),
  \<^verbatim>\<open>error\<close> carries the \<^verbatim>\<open>message\<close> of its payload. \<open>'w\<close> is the type of parsed
  JSON values.
\<close>

datatype 'w WireEvent =
    Loading string
  | Message string
  | Wager string 'w
  | Error string
  | End

record 'w Session =
  sent :: "'w WireEvent list"
  hasSentLoadingIndicator :: bool
  initialNodeComplete :: bool

definition sendEvent :: "'w WireEvent \<Rightarrow> 'w Session \<Rightarrow> 'w Session" where
  "sendEvent e s = s\<lparr>sent := sent s @ [e]\<rparr>"

subsection \<open>The pattern of an embedded object\<close>

text \<open>
  \<^verbatim>\<open>message.match(/\[OBJ\](.*?)\[\/OBJ\]/)\<close>. The dot matches no line terminator
  (line feed, carriage return, U+2028, U+2029), and the group is as short as it can be:
  from an opening marker the match runs to the next closing marker, unless a line
  terminator comes first. The result is the text of the group.
\<close>

definition lineTerminatorAt :: "string \<Rightarrow> bool" where
  "lineTerminatorAt s =
     (startsWith s [CHR 0x0A] \<or> startsWith s [CHR 0x0D]
      \<or> startsWith s [CHR 0xE2, CHR 0x80, CHR 0xA8]
      \<or> startsWith s [CHR 0xE2, CHR 0x80, CHR 0xA9])"

fun group_until_close :: "string \<Rightarrow> string option" where
  "group_until_close [] = None"
| "group_until_close (c # cs) =
     (if startsWith (c # cs) ''[/OBJ]'' then Some []
      else if lineTerminatorAt (c # cs) then None
      else map_option ((#) c) (group_until_close cs))"

fun match_OBJ :: "string \<Rightarrow> string option" where
  "match_OBJ [] = None"
| "match_OBJ (c # cs) =
     (if startsWith (c # cs) ''[OBJ]'' then
        (case group_until_close (drop (length ''[OBJ]'') (c # cs)) of
           Some g \<Rightarrow> Some g
         | None \<Rightarrow> match_OBJ cs)
      else match_OBJ cs)"

subsection \<open>The stream loop\<close>

text \<open>\<^verbatim>\<open>output?.messages?.[0]\<close>, when it is truthy: the first message, if there is one and
  it is not the empty string.\<close>

definition first_message :: "NodeOutput \<Rightarrow> string option" where
  "first_message output =
     (case out_messages output of
        [] \<Rightarrow> None
      | m # ms \<Rightarrow> if m = [] then None else Some m)"

text \<open>The body of the inner loop, for one entry \<^verbatim>\<open>[nodeName, nodeOutput]\<close> of a stream
  value. \<open>parse\<close> is \<^verbatim>\<open>JSON.parse\<close>: \<open>None\<close> when it throws. The group of the match
  is read only where the match is there.\<close>

definition on_entry :: "(string \<Rightarrow> 'w option) \<Rightarrow> string \<times> NodeOutput \<Rightarrow> 'w Session \<Rightarrow> 'w Session" where
  "on_entry parse entry s0 =
     (case entry of (nodeName, output) \<Rightarrow>
        (let s = (if nodeName = ''initial_node'' \<and> \<not> hasSentLoadingIndicator s0
                  then (sendEvent (Loading ''Processing your request...'') s0)
                         \<lparr>hasSentLoadingIndicator := True\<rparr>
                  else s0)
         in case first_message output of
              None \<Rightarrow> s
            | Some message \<Rightarrow>
                (let wagerObjectMatch = match_OBJ message in
                   if wagerObjectMatch \<noteq> None \<and> nodeName = ''wager_validation_node'' then
                     (case parse (the wagerObjectMatch) of
                        Some wagerObject \<Rightarrow>
                          sendEvent (Wager ''Wager created successfully!'' wagerObject) s
                      | None \<Rightarrow> sendEvent (Message ''Error creating wager object'') s)
                   else if nodeName = ''initial_node'' then
                     (sendEvent (Message message) s)\<lparr>initialNodeComplete := True\<rparr>
                   else if nodeName = ''wager_info_extraction_node''
                           \<or> nodeName = ''event_details_extraction_node'' then
                     sendEvent (Message message) s
                   else s)))"

definition stream_loop :: "(string \<Rightarrow> 'w option) \<Rightarrow> (string \<times> NodeOutput) list \<Rightarrow> 'w Session \<Rightarrow> 'w Session" where
  "stream_loop parse updates s = foldl (\<lambda>s entry. on_entry parse entry s) s updates"

definition new_session :: "'w Session" where
  "new_session = \<lparr>sent = [], hasSentLoadingIndicator = False, initialNodeComplete = False\<rparr>"

text \<open>
  The \<^verbatim>\<open>try\<close> block and its \<^verbatim>\<open>catch\<close>, over a stream that gave \<open>updates\<close> and then either
  ended (\<open>None\<close>) or threw an error with the given \<^verbatim>\<open>message\<close>. The result is the list of
  events written to the response, in order.
\<close>

definition handle_stream :: "(string \<Rightarrow> 'w option) \<Rightarrow> (string \<times> NodeOutput) list \<Rightarrow> string option \<Rightarrow> 'w WireEvent list" where
  "handle_stream parse updates failure =
     (let s = stream_loop parse updates new_session in
        case failure of
          None \<Rightarrow> sent (sendEvent End s)
        | Some error_message \<Rightarrow>
            (let s1 = (if \<not> initialNodeComplete s
                       then sendEvent (Message ''I apologize, but I encountered an error processing your request. Please try again.'') s
                       else s);
                 s2 = sendEvent (Error (if error_message = [] then ''An error occurred on the server.''
                                        else error_message)) s1
             in sent (sendEvent End s2)))"

text \<open>The handler of \<^verbatim>\<open>GET /api/agent\<close>, once the request has been validated and the
  event stream opened.\<close>

definition agent_handler :: "(string \<Rightarrow> 'w option) \<Rightarrow> language_model \<Rightarrow> string \<Rightarrow> string \<Rightarrow> (string \<times> string) list \<Rightarrow> 'w WireEvent list" where
  "agent_handler parse invoke now inp parsedChatHistory =
     (let initialState = initial_state inp (convertChatHistoryToMessages parsedChatHistory);
          r = graph_stream invoke now initialState
      in handle_stream parse (run_updates r) (run_failure r))"

section \<open>Matching a label without regard to case\<close>

text \<open>
  The specification's words for the role labels: a label matches a lower-case word
  when it has the word's length and, at each position, the word's letter or its
  capital. These definitions follow the specification; the theorem on the history
  adapter compares them with \<open>toLowerCase\<close>.
\<close>

definition sameLetter :: "char \<Rightarrow> char \<Rightarrow> bool" where
  "sameLetter c d =
     (c = d \<or> (65 \<le> (of_char c :: nat) \<and> (of_char c :: nat) \<le> 90
              \<and> (of_char d :: nat) = of_char c + 32))"

definition equalIgnoringCase :: "string \<Rightarrow> string \<Rightarrow> bool" where
  "equalIgnoringCase label word = list_all2 sameLetter label word"

definition isLowerWord :: "string \<Rightarrow> bool" where
  "isLowerWord w = list_all (\<lambda>d. 97 \<le> (of_char d :: nat) \<and> (of_char d :: nat) \<le> 122) w"

definition recognisedRole :: "string \<Rightarrow> bool" where
  "recognisedRole label =
     (equalIgnoringCase label ''human'' \<or> equalIgnoringCase label ''assistant''
      \<or> equalIgnoringCase label ''ai'')"

section \<open>Predicates of the properties\<close>


text \<open>
  The specification names four stages, and it calls the end of a run Completed on both
  of its terminal paths: after the ticket has been made (the step "completed" of the
  code) and after the introduction alone (the step "introduction_complete" of the
  code). \<open>spec_stage\<close> gives the specification's stage for a step of the code.
\<close>

datatype Stage = Initial | EventExtraction | NftCreation | Completed

definition spec_stage :: "string option \<Rightarrow> Stage option" where
  "spec_stage step =
     (if step = Some ''initial'' then Some Initial
      else if step = Some ''event_extraction'' then Some EventExtraction
      else if step = Some ''nft_creation'' then Some NftCreation
      else if step = Some ''completed'' \<or> step = Some ''introduction_complete''
        then Some Completed
      else None)"

text \<open>A later state keeps what an earlier state has set of the event's name and date.\<close>

definition keeps :: "AdapticState \<Rightarrow> AdapticState \<Rightarrow> bool" where
  "keeps a b = ((\<forall>v. eventName a = Some v \<longrightarrow> eventName b = Some v)
               \<and> (\<forall>v. eventDate a = Some v \<longrightarrow> eventDate b = Some v))"

section \<open>The history adapter\<close>

lemma toLowerChar_eq_iff:
  assumes "97 \<le> (of_char d :: nat)" "(of_char d :: nat) \<le> 122"
  shows "toLowerChar c = d \<longleftrightarrow> sameLetter c d"
proof -
  have inj: "\<And>n::nat. n < 256 \<Longrightarrow> (char_of n = d) = (n = of_char d)"
    by (simp add: char_of_eq_iff take_bit_eq_mod)
  show ?thesis
    using assms unfolding toLowerChar_def sameLetter_def Let_def
    by (auto simp: inj)
qed

lemma high_byte_no_letter:
  assumes "128 \<le> (of_char a :: nat)"
    and "97 \<le> (of_char d :: nat)" "(of_char d :: nat) \<le> 122"
  shows "\<not> sameLetter a d" "a \<noteq> d"
  using assms by (auto simp: sameLetter_def)

lemma toLowerCase_Cons:
  assumes "\<not> (128 \<le> (of_char a :: nat))"
  shows "toLowerCase (a # s) = toLowerChar a # toLowerCase s"
proof (cases s)
  case Nil
  then show ?thesis by simp
next
  case (Cons b t)
  from assms have a: "a \<noteq> CHR 0xE2" "a \<noteq> CHR 0xC4" by auto
  show ?thesis
  proof (cases t)
    case Nil
    with Cons a show ?thesis by simp
  next
    case (Cons c u)
    with \<open>s = b # t\<close> a show ?thesis by simp
  qed
qed

lemma toLowerCase_high:
  assumes "128 \<le> (of_char a :: nat)" and "toLowerCase (a # s) = d # ds"
  shows "d = CHR ''k'' \<or> d = CHR ''i'' \<and> ds \<noteq> [] \<and> hd ds = CHR 0xCC \<or> d = a"
proof -
  have hi: "toLowerChar a = a" using assms(1) by (simp add: toLowerChar_def)
  from assms(2) show ?thesis
    by (cases "a # s" rule: toLowerCase.cases) (auto split: if_splits simp: hi)
qed

lemma toLowerCase_not_Nil: "toLowerCase (c # cs) \<noteq> []"
  by (cases "c # cs" rule: toLowerCase.cases) (auto split: if_splits)

lemma toLowerCase_eq_iff:
  assumes "isLowerWord w" and "CHR ''k'' \<notin> set w"
  shows "toLowerCase label = w \<longleftrightarrow> equalIgnoringCase label w"
  using assms
proof (induction label arbitrary: w)
  case Nil
  then show ?case by (auto simp: equalIgnoringCase_def)
next
  case (Cons c cs)
  show ?case
  proof (cases w)
    case Nil
    with toLowerCase_not_Nil [of c cs] show ?thesis by (simp add: equalIgnoringCase_def)
  next
    case w: (Cons d ds)
    with Cons.prems have d: "97 \<le> (of_char d :: nat)" "(of_char d :: nat) \<le> 122"
      and ds: "isLowerWord ds" and k: "d \<noteq> CHR ''k''" "CHR ''k'' \<notin> set ds"
      by (auto simp: isLowerWord_def)
    from Cons.IH [OF ds k(2)] have IH: "toLowerCase cs = ds \<longleftrightarrow> equalIgnoringCase cs ds" .
    show ?thesis
    proof (cases "128 \<le> (of_char c :: nat)")
      case False
      from toLowerCase_Cons [OF False] toLowerChar_eq_iff [OF d, of c] IH w show ?thesis
        by (simp add: equalIgnoringCase_def)
    next
      case True
      from high_byte_no_letter [OF True d] have n: "\<not> sameLetter c d" "c \<noteq> d" .
      have "toLowerCase (c # cs) \<noteq> d # ds"
      proof
        assume e: "toLowerCase (c # cs) = d # ds"
        from toLowerCase_high [OF True e] k n
        have "d = CHR ''i'' \<and> ds \<noteq> [] \<and> hd ds = CHR 0xCC" by auto
        then obtain ds' where "ds = CHR 0xCC # ds'" by (cases ds) auto
        with ds show False by (simp add: isLowerWord_def)
      qed
      with n w show ?thesis by (simp add: equalIgnoringCase_def)
    qed
  qed
qed

lemma role_words:
  "toLowerCase label = ''human'' \<longleftrightarrow> equalIgnoringCase label ''human''"
  "toLowerCase label = ''assistant'' \<longleftrightarrow> equalIgnoringCase label ''assistant''"
  "toLowerCase label = ''ai'' \<longleftrightarrow> equalIgnoringCase label ''ai''"
  by (rule toLowerCase_eq_iff, simp add: isLowerWord_def, simp)+

lemma convertRole_cases:
  "convertRole (label, content) =
     (if equalIgnoringCase label ''assistant'' \<or> equalIgnoringCase label ''ai''
      then AIMessage content else HumanMessage content)"
  unfolding role_words [symmetric] by (auto simp: convertRole_def Let_def)

lemma roleWarning_length:
  "length (roleWarning (label, content)) = (if recognisedRole label then 0 else 1)"
  by (simp add: roleWarning_def Let_def role_words recognisedRole_def)

lemma chatHistoryWarnings_length:
  "length (chatHistoryWarnings ps) = length (filter (\<lambda>p. \<not> recognisedRole (fst p)) ps)"
proof (induction ps)
  case Nil
  show ?case by (simp add: chatHistoryWarnings_def)
next
  case (Cons p ps)
  obtain label content where p: "p = (label, content)" by (cases p)
  from Cons show ?case
    by (simp add: chatHistoryWarnings_def p roleWarning_length)
qed

text \<open>
  C6. The history adapter gives one turn for each pair, in the order of the pairs: the
  turn at position \<open>i\<close> carries the text of the pair at position \<open>i\<close>, and it is an
  assistant turn when the pair's label is "assistant" or "ai" in any mix of upper and
  lower case, a human turn otherwise (so for "human" and for every unrecognised label).
  One warning is logged for each unrecognised label and nothing fails. Empty input
  gives empty output, and the pairs ("human","a"), ("ai","b") give Human "a",
  Assistant "b".
\<close>

theorem history_adapter_order_and_roles:
  "length (convertChatHistoryToMessages ps) = length ps
   \<and> (\<forall>i<length ps.
         convertChatHistoryToMessages ps ! i =
           (if equalIgnoringCase (fst (ps ! i)) ''assistant''
               \<or> equalIgnoringCase (fst (ps ! i)) ''ai''
            then AIMessage (snd (ps ! i)) else HumanMessage (snd (ps ! i))))
   \<and> length (chatHistoryWarnings ps) = length (filter (\<lambda>p. \<not> recognisedRole (fst p)) ps)
   \<and> convertChatHistoryToMessages [] = []
   \<and> convertChatHistoryToMessages [(''human'', ''a''), (''ai'', ''b'')]
       = [HumanMessage ''a'', AIMessage ''b'']"
proof -
  have nth: "\<forall>i<length ps.
         convertChatHistoryToMessages ps ! i =
           (if equalIgnoringCase (fst (ps ! i)) ''assistant''
               \<or> equalIgnoringCase (fst (ps ! i)) ''ai''
            then AIMessage (snd (ps ! i)) else HumanMessage (snd (ps ! i)))"
  proof (intro allI impI)
    fix i assume i: "i < length ps"
    obtain label content where p: "ps ! i = (label, content)" by (cases "ps ! i")
    from i have "convertChatHistoryToMessages ps ! i = convertRole (ps ! i)"
      by (simp add: convertChatHistoryToMessages_def)
    with p show "convertChatHistoryToMessages ps ! i =
           (if equalIgnoringCase (fst (ps ! i)) ''assistant''
               \<or> equalIgnoringCase (fst (ps ! i)) ''ai''
            then AIMessage (snd (ps ! i)) else HumanMessage (snd (ps ! i)))"
      by (simp add: convertRole_cases)
  qed
  have ex: "convertChatHistoryToMessages [(''human'', ''a''), (''ai'', ''b'')]
       = [HumanMessage ''a'', AIMessage ''b'']"
    by (simp add: convertChatHistoryToMessages_def convertRole_def toLowerChar_def
        char_of_eq_iff)
  show ?thesis
    using nth ex
    by (simp add: chatHistoryWarnings_length) (simp add: convertChatHistoryToMessages_def)
qed

theorem history_adapter_witness:
  "convertChatHistoryToMessages [(''Human'', ''a''), (''AI'', ''b''), (''bot'', ''c'')] ! 1
     = AIMessage ''b''
   \<and> convertChatHistoryToMessages [(''Human'', ''a''), (''AI'', ''b''), (''bot'', ''c'')] ! 2
     = HumanMessage ''c''
   \<and> length (chatHistoryWarnings [(''Human'', ''a''), (''AI'', ''b''), (''bot'', ''c'')]) = 1"
proof -
  have e: "equalIgnoringCase ''AI'' ''ai''" "\<not> equalIgnoringCase ''bot'' ''ai''"
    "\<not> equalIgnoringCase ''bot'' ''assistant''" "\<not> equalIgnoringCase ''bot'' ''human''"
    "equalIgnoringCase ''Human'' ''human''"
    by (simp_all add: equalIgnoringCase_def sameLetter_def)
  have n: "(1::nat) < length [(''Human'', ''a''), (''AI'', ''b''), (''bot'', ''c'')]"
    "(2::nat) < length [(''Human'', ''a''), (''AI'', ''b''), (''bot'', ''c'')]"
    by simp_all
  from history_adapter_order_and_roles
    [of "[(''Human'', ''a''), (''AI'', ''b''), (''bot'', ''c'')]"] n e
  show ?thesis
    by (simp add: recognisedRole_def)
qed

section \<open>The extraction stage\<close>

lemma split_on_nonempty: "split_on sep s \<noteq> []"
  by (induction s) (auto split: list.splits)

lemma split_on_hd: "hd (split_on sep s) = takeWhile (\<lambda>c. c \<noteq> sep) s"
  by (induction s) (auto split: list.splits simp: split_on_nonempty)

lemma split_on_tl:
  "tl (split_on sep s) =
     (if sep \<in> set s then split_on sep (tl (dropWhile (\<lambda>c. c \<noteq> sep) s)) else [])"
  by (induction s) (auto split: list.splits simp: split_on_nonempty)

lemma split_on_fields:
  "split_on sep s =
     takeWhile (\<lambda>c. c \<noteq> sep) s
       # (if sep \<in> set s then split_on sep (tl (dropWhile (\<lambda>c. c \<noteq> sep) s)) else [])"
  using split_on_hd [of sep s] split_on_tl [of sep s] split_on_nonempty [of sep s]
  by (cases "split_on sep s") simp_all

lemma part_0:
  "part (map trim (split_on sep s)) 0 = Some (trim (takeWhile (\<lambda>c. c \<noteq> sep) s))"
  by (subst split_on_fields) (simp add: part_def)

lemma part_1:
  "part (map trim (split_on sep s)) 1 =
     (if sep \<in> set s
      then Some (trim (takeWhile (\<lambda>c. c \<noteq> sep) (tl (dropWhile (\<lambda>c. c \<noteq> sep) s))))
      else None)"
proof (cases "sep \<in> set s")
  case True
  have "split_on sep s = takeWhile (\<lambda>c. c \<noteq> sep) s
      # takeWhile (\<lambda>c. c \<noteq> sep) (tl (dropWhile (\<lambda>c. c \<noteq> sep) s))
      # tl (split_on sep (tl (dropWhile (\<lambda>c. c \<noteq> sep) s)))"
    using True split_on_fields [of sep s]
      split_on_hd [of sep "tl (dropWhile (\<lambda>c. c \<noteq> sep) s)"]
      split_on_nonempty [of sep "tl (dropWhile (\<lambda>c. c \<noteq> sep) s)"]
    by (cases "split_on sep (tl (dropWhile (\<lambda>c. c \<noteq> sep) s))") simp_all
  then show ?thesis using True by (simp add: part_def)
next
  case False
  then have "split_on sep s = [takeWhile (\<lambda>c. c \<noteq> sep) s]"
    using split_on_fields [of sep s] by simp
  with False show ?thesis by (simp add: part_def)
qed

lemma summer_gala_parts:
  "extraction_parts ''EXTRACTION_COMPLETE: Summer Gala | 25/12/2025''
     = [''Summer Gala'', ''25/12/2025'']"
  by (simp add: extraction_parts_def trim_def trimEnd_def isSpace1_def isSpace2_def
      isSpace3_def)

text \<open>
  C4. When the model's reply to the extraction stage's call is
  "EXTRACTION_COMPLETE: Summer Gala | 25/12/2025", the stage returns eventName
  "Summer Gala" and eventDate "25/12/2025", both trimmed, with no message; the merged
  state holds the two values, its step is nft_creation, and the edge leads to the
  NftCreation node.
\<close>

theorem extraction_summer_gala:
  assumes "invoke (formatTemplate EVENT_EXTRACTION_TEMPLATE (templateData state),
                   chat_history state, input state)
           = Inr ''EXTRACTION_COMPLETE: Summer Gala | 25/12/2025''"
  shows "\<exists>out. snd (event_extraction_node invoke state) = Inr out
           \<and> out_eventName out = Some ''Summer Gala''
           \<and> out_eventDate out = Some ''25/12/2025''
           \<and> out_currentStep out = Some ''nft_creation''
           \<and> out_messages out = []
           \<and> eventName (apply_update state out) = Some ''Summer Gala''
           \<and> eventDate (apply_update state out) = Some ''25/12/2025''
           \<and> currentStep (apply_update state out) = Some ''nft_creation''
           \<and> next_node ''event_extraction_node'' (apply_update state out)
               = Some ''nft_creation_node''"
proof -
  show ?thesis
    using assms
    by (simp add: event_extraction_node_def Let_def summer_gala_parts part_def no_update_def
        apply_update_def nullish_def next_node_def)
qed

theorem extraction_summer_gala_witness:
  "\<exists>out. snd (event_extraction_node
                 (\<lambda>call. Inr ''EXTRACTION_COMPLETE: Summer Gala | 25/12/2025'')
                 (initial_state ''create an event'' [])) = Inr out
         \<and> out_eventName out = Some ''Summer Gala''
         \<and> out_eventDate out = Some ''25/12/2025''
         \<and> out_currentStep out = Some ''nft_creation''"
  using extraction_summer_gala
    [of "\<lambda>call. Inr ''EXTRACTION_COMPLETE: Summer Gala | 25/12/2025''"
        "initial_state ''create an event'' []"]
  by auto

text \<open>
  C2, as the code has it. When the reply begins with the marker, the stage never fails
  and always moves on to NftCreation with no message: the text after the marker is split
  at every "|", the name is the trimmed text before the first "|", and the date is the
  trimmed text between the first "|" and the next one. When the text has no "|" the
  stage returns no date, so the state's date stays what it was.
\<close>

theorem extraction_marker_always_advances:
  assumes "invoke (formatTemplate EVENT_EXTRACTION_TEMPLATE (templateData state),
                   chat_history state, input state) = Inr responseText"
    and "startsWith responseText ''EXTRACTION_COMPLETE:''"
  shows "\<exists>out. snd (event_extraction_node invoke state) = Inr out
      \<and> out_currentStep out = Some ''nft_creation''
      \<and> out_messages out = []
      \<and> out_eventName out =
          Some (trim (takeWhile (\<lambda>c. c \<noteq> CHR ''|'') (drop 20 responseText)))
      \<and> out_eventDate out =
          (if CHR ''|'' \<in> set (drop 20 responseText)
           then Some (trim (takeWhile (\<lambda>c. c \<noteq> CHR ''|'')
                        (tl (dropWhile (\<lambda>c. c \<noteq> CHR ''|'') (drop 20 responseText)))))
           else None)
      \<and> eventDate (apply_update state out) =
          (if CHR ''|'' \<in> set (drop 20 responseText)
           then Some (trim (takeWhile (\<lambda>c. c \<noteq> CHR ''|'')
                        (tl (dropWhile (\<lambda>c. c \<noteq> CHR ''|'') (drop 20 responseText)))))
           else eventDate state)
      \<and> currentStep (apply_update state out) = Some ''nft_creation''
      \<and> next_node ''event_extraction_node'' (apply_update state out)
          = Some ''nft_creation_node''"
proof -
  have len: "length ''EXTRACTION_COMPLETE:'' = 20" by simp
  have n: "part (extraction_parts responseText) 0 =
      Some (trim (takeWhile (\<lambda>c. c \<noteq> CHR ''|'') (drop 20 responseText)))"
    unfolding extraction_parts_def len by (rule part_0)
  have d: "part (extraction_parts responseText) (Suc 0) =
      (if CHR ''|'' \<in> set (drop 20 responseText)
       then Some (trim (takeWhile (\<lambda>c. c \<noteq> CHR ''|'')
                    (tl (dropWhile (\<lambda>c. c \<noteq> CHR ''|'') (drop 20 responseText)))))
       else None)"
    unfolding extraction_parts_def len using part_1 [of "CHR ''|''" "drop 20 responseText"]
    by simp
  show ?thesis
    using assms
    by (simp add: event_extraction_node_def Let_def n d
        no_update_def apply_update_def nullish_def next_node_def)
qed

text \<open>C2 as stated fails for a reply with the marker and no separator: the stage does
  not stay in EventExtraction, it returns the step nft_creation, with a name and no
  date, and the edge leads to the NftCreation node.\<close>

theorem extraction_missing_separator_counterexample:
  "\<exists>out. snd (event_extraction_node (\<lambda>call. Inr ''EXTRACTION_COMPLETE: Summer Gala'')
                 (initial_state ''create an event'' [])) = Inr out
     \<and> out_currentStep out = Some ''nft_creation''
     \<and> out_eventName out = Some ''Summer Gala''
     \<and> out_eventDate out = None
     \<and> currentStep (apply_update (initial_state ''create an event'' []) out)
         \<noteq> Some ''event_extraction''
     \<and> next_node ''event_extraction_node''
          (apply_update (initial_state ''create an event'' []) out)
         = Some ''nft_creation_node''"
proof -
  have "extraction_parts ''EXTRACTION_COMPLETE: Summer Gala'' = [''Summer Gala'']"
    by (simp add: extraction_parts_def trim_def trimEnd_def isSpace1_def isSpace2_def
      isSpace3_def)
  then show ?thesis
    by (simp add: event_extraction_node_def Let_def part_def no_update_def apply_update_def
        nullish_def next_node_def)
qed

text \<open>The theorem at a reply with three fields, and at a reply whose fields are padded with
  no-break spaces (U+00A0).\<close>

theorem extraction_marker_witness:
  "(\<exists>out. snd (event_extraction_node
                  (\<lambda>call. Inr ''EXTRACTION_COMPLETE: Summer Gala | 25/12/2025 | VIP'')
                  (initial_state ''create an event'' [])) = Inr out
      \<and> out_currentStep out = Some ''nft_creation''
      \<and> out_eventName out = Some ''Summer Gala''
      \<and> out_eventDate out = Some ''25/12/2025'')
   \<and> (\<exists>out. snd (event_extraction_node
                  (\<lambda>call. Inr (''EXTRACTION_COMPLETE:'' @ [CHR 0xC2, CHR 0xA0] @ ''Gala''
                     @ [CHR 0xC2, CHR 0xA0] @ ''|'' @ [CHR 0xC2, CHR 0xA0] @ ''01/01/2026''))
                  (initial_state ''create an event'' [])) = Inr out
      \<and> out_currentStep out = Some ''nft_creation''
      \<and> out_eventName out = Some ''Gala''
      \<and> out_eventDate out = Some ''01/01/2026'')"
proof -
  have s: "startsWith ''EXTRACTION_COMPLETE: Summer Gala | 25/12/2025 | VIP'' ''EXTRACTION_COMPLETE:''"
    by simp
  have t: "startsWith (''EXTRACTION_COMPLETE:'' @ [CHR 0xC2, CHR 0xA0] @ ''Gala''
       @ [CHR 0xC2, CHR 0xA0] @ ''|'' @ [CHR 0xC2, CHR 0xA0] @ ''01/01/2026'')
     ''EXTRACTION_COMPLETE:''"
    by simp
  from extraction_marker_always_advances
    [of "\<lambda>call. Inr ''EXTRACTION_COMPLETE: Summer Gala | 25/12/2025 | VIP''"
        "initial_state ''create an event'' []"
        "''EXTRACTION_COMPLETE: Summer Gala | 25/12/2025 | VIP''", OF refl s]
  have a: "\<exists>out. snd (event_extraction_node
                  (\<lambda>call. Inr ''EXTRACTION_COMPLETE: Summer Gala | 25/12/2025 | VIP'')
                  (initial_state ''create an event'' [])) = Inr out
      \<and> out_currentStep out = Some ''nft_creation''
      \<and> out_eventName out = Some ''Summer Gala''
      \<and> out_eventDate out = Some ''25/12/2025''"
    by (auto simp: trim_def trimEnd_def isSpace1_def isSpace2_def isSpace3_def)
  from extraction_marker_always_advances
    [of "\<lambda>call. Inr (''EXTRACTION_COMPLETE:'' @ [CHR 0xC2, CHR 0xA0] @ ''Gala''
           @ [CHR 0xC2, CHR 0xA0] @ ''|'' @ [CHR 0xC2, CHR 0xA0] @ ''01/01/2026'')"
        "initial_state ''create an event'' []"
        "''EXTRACTION_COMPLETE:'' @ [CHR 0xC2, CHR 0xA0] @ ''Gala''
           @ [CHR 0xC2, CHR 0xA0] @ ''|'' @ [CHR 0xC2, CHR 0xA0] @ ''01/01/2026''", OF refl t]
  have b: "\<exists>out. snd (event_extraction_node
                  (\<lambda>call. Inr (''EXTRACTION_COMPLETE:'' @ [CHR 0xC2, CHR 0xA0] @ ''Gala''
                     @ [CHR 0xC2, CHR 0xA0] @ ''|'' @ [CHR 0xC2, CHR 0xA0] @ ''01/01/2026''))
                  (initial_state ''create an event'' [])) = Inr out
      \<and> out_currentStep out = Some ''nft_creation''
      \<and> out_eventName out = Some ''Gala''
      \<and> out_eventDate out = Some ''01/01/2026''"
    by (auto simp: trim_def trimEnd_def isSpace1_def isSpace2_def isSpace3_def)
  from a b show ?thesis by (rule conjI)
qed

section \<open>Rendering a template\<close>

lemma brace_not_word [simp]: "\<not> isWordChar CHR ''{''" "\<not> isWordChar CHR ''}''"
  by (simp_all add: isWordChar_def)










section \<open>The runs of the graph\<close>

lemma run_from_fail:
  assumes "run_node invoke now n s = (calls, Inl err)"
  shows "run_from (Suc k) invoke now n s =
     \<lparr>run_updates = [], run_failure = Some err, run_states = [], run_calls = calls\<rparr>"
  using assms by simp

lemma run_from_end:
  assumes "run_node invoke now n s = (calls, Inr out)"
    and "next_node n (apply_update s out) = None"
  shows "run_from (Suc k) invoke now n s =
     \<lparr>run_updates = [(n, out)], run_failure = None,
      run_states = [apply_update s out], run_calls = calls\<rparr>"
  using assms by (simp add: Let_def)

lemma run_from_next:
  assumes "run_node invoke now n s = (calls, Inr out)"
    and "next_node n (apply_update s out) = Some n'"
    and "run_from k invoke now n' (apply_update s out) = rest"
  shows "run_from (Suc k) invoke now n s =
     \<lparr>run_updates = (n, out) # run_updates rest, run_failure = run_failure rest,
      run_states = apply_update s out # run_states rest,
      run_calls = calls @ run_calls rest\<rparr>"
  using assms by (simp add: Let_def)

lemma introduction_node_out:
  assumes "introduction_node invoke s = (calls, Inr out)"
  shows "out_eventName out = None \<and> out_eventDate out = None \<and> out_nftTicketObject out = None
         \<and> (out_currentStep out = Some ''event_extraction''
               \<and> out_operation out = Some ''event_creation''
             \<or> out_currentStep out = Some ''introduction_complete''
               \<and> out_operation out = Some ''introduction'')"
  using assms
  by (auto simp: introduction_node_def no_update_def Let_def split: if_splits sum.splits)

lemma event_extraction_node_out:
  assumes "event_extraction_node invoke s = (calls, Inr out)"
  shows "out_nftTicketObject out = None
         \<and> (out_currentStep out = Some ''nft_creation''
             \<or> out_currentStep out = Some ''event_extraction''
               \<and> out_eventName out = None \<and> out_eventDate out = None)"
  using assms
  by (auto simp: event_extraction_node_def no_update_def Let_def split: if_splits sum.splits)

lemma nft_creation_node_out:
  "\<exists>out. nft_creation_node now s = ([], Inr out)
         \<and> out_eventName out = None \<and> out_eventDate out = None
         \<and> out_nftTicketObject out \<noteq> None \<and> out_currentStep out = Some ''completed''"
  by (simp add: nft_creation_node_def no_update_def Let_def)

lemma node_names:
  "run_node invoke now ''introduction_node'' s = introduction_node invoke s"
  "run_node invoke now ''event_extraction_node'' s = event_extraction_node invoke s"
  "run_node invoke now ''nft_creation_node'' s = nft_creation_node now s"
  by (simp_all add: run_node_def)

lemma next_node_simps:
  "next_node ''introduction_node'' s =
     (if operation s = Some ''event_creation'' then Some ''event_extraction_node'' else None)"
  "next_node ''event_extraction_node'' s =
     (if currentStep s = Some ''nft_creation'' then Some ''nft_creation_node'' else None)"
  "next_node ''nft_creation_node'' s = None"
  by (simp_all add: next_node_def)

lemma apply_update_fields:
  "operation (apply_update s out) = nullish (out_operation out) (operation s)"
  "currentStep (apply_update s out) = nullish (out_currentStep out) (currentStep s)"
  "eventName (apply_update s out) = nullish (out_eventName out) (eventName s)"
  "eventDate (apply_update s out) = nullish (out_eventDate out) (eventDate s)"
  "nftTicketObject (apply_update s out) = nullish (out_nftTicketObject out) (nftTicketObject s)"
  "messages (apply_update s out) = messages s @ out_messages out"
  "input (apply_update s out) = input s"
  "chat_history (apply_update s out) = chat_history s"
  by (simp_all add: apply_update_def)

lemma nullish_simps [simp]:
  "nullish None x = x" "nullish (Some v) x = Some v"
  by (simp_all add: nullish_def)

text \<open>From the NftCreation node the run ends after that node.\<close>

lemma run_from_nft:
  "\<exists>out. nft_creation_node now s = ([], Inr out)
     \<and> run_from (Suc k) invoke now ''nft_creation_node'' s =
        \<lparr>run_updates = [(''nft_creation_node'', out)], run_failure = None,
         run_states = [apply_update s out], run_calls = []\<rparr>"
proof -
  obtain out where out: "nft_creation_node now s = ([], Inr out)"
    using nft_creation_node_out [of now s] by blast
  have "run_from (Suc k) invoke now ''nft_creation_node'' s =
        \<lparr>run_updates = [(''nft_creation_node'', out)], run_failure = None,
         run_states = [apply_update s out], run_calls = []\<rparr>"
    by (rule run_from_end) (simp_all add: node_names out next_node_simps)
  with out show ?thesis by blast
qed

text \<open>From the extraction node: the call fails, or the reply lacks the marker and the
  run ends, or the NftCreation node follows.\<close>

lemma run_from_extraction:
  fixes k invoke now s
  defines "r \<equiv> run_from (Suc (Suc k)) invoke now ''event_extraction_node'' s"
  shows "(\<exists>calls err. event_extraction_node invoke s = (calls, Inl err)
            \<and> r = \<lparr>run_updates = [], run_failure = Some err, run_states = [],
                    run_calls = calls\<rparr>)
       \<or> (\<exists>calls out. event_extraction_node invoke s = (calls, Inr out)
            \<and> out_currentStep out = Some ''event_extraction''
            \<and> r = \<lparr>run_updates = [(''event_extraction_node'', out)], run_failure = None,
                    run_states = [apply_update s out], run_calls = calls\<rparr>)
       \<or> (\<exists>calls out out3. event_extraction_node invoke s = (calls, Inr out)
            \<and> out_currentStep out = Some ''nft_creation''
            \<and> nft_creation_node now (apply_update s out) = ([], Inr out3)
            \<and> r = \<lparr>run_updates = [(''event_extraction_node'', out), (''nft_creation_node'', out3)],
                    run_failure = None,
                    run_states = [apply_update s out, apply_update (apply_update s out) out3],
                    run_calls = calls\<rparr>)"
proof -
  obtain calls res where e: "event_extraction_node invoke s = (calls, res)"
    by (cases "event_extraction_node invoke s")
  show ?thesis
  proof (cases res)
    case (Inl err)
    with e have "r = \<lparr>run_updates = [], run_failure = Some err, run_states = [],
                    run_calls = calls\<rparr>"
      unfolding r_def by (intro run_from_fail) (simp add: node_names)
    with e Inl show ?thesis by blast
  next
    case (Inr out)
    note o = event_extraction_node_out [OF e [unfolded Inr]]
    show ?thesis
    proof (cases "out_currentStep out = Some ''nft_creation''")
      case False
      with o have step: "out_currentStep out = Some ''event_extraction''" by blast
      have "r = \<lparr>run_updates = [(''event_extraction_node'', out)], run_failure = None,
                    run_states = [apply_update s out], run_calls = calls\<rparr>"
        unfolding r_def
        by (rule run_from_end) (simp_all add: node_names e Inr next_node_simps apply_update_fields step)
      with e Inr step show ?thesis by blast
    next
      case True
      obtain out3 where n: "nft_creation_node now (apply_update s out) = ([], Inr out3)"
        and rn: "run_from (Suc k) invoke now ''nft_creation_node'' (apply_update s out) =
          \<lparr>run_updates = [(''nft_creation_node'', out3)], run_failure = None,
           run_states = [apply_update (apply_update s out) out3], run_calls = []\<rparr>"
        using run_from_nft [of now "apply_update s out" k invoke] by blast
      have "r = \<lparr>run_updates = [(''event_extraction_node'', out), (''nft_creation_node'', out3)],
                    run_failure = None,
                    run_states = [apply_update s out, apply_update (apply_update s out) out3],
                    run_calls = calls\<rparr>"
        unfolding r_def
        using run_from_next [where k = "Suc k" and invoke = invoke and now = now
            and n = "''event_extraction_node''" and s = s and calls = calls and out = out
            and n' = "''nft_creation_node''", OF _ _ rn]
        by (simp add: node_names e Inr next_node_simps apply_update_fields True)
      with e Inr True n show ?thesis by blast
    qed
  qed
qed


lemma recursionLimit_Suc: "recursionLimit = Suc (Suc (Suc 97))"
  by (simp add: recursionLimit_def)

lemma graph_stream_cases:
  fixes invoke now st
  defines "r \<equiv> graph_stream invoke now st"
  shows "(\<exists>calls err. introduction_node invoke st = (calls, Inl err)
            \<and> r = \<lparr>run_updates = [], run_failure = Some err, run_states = [st],
                    run_calls = calls\<rparr>)
       \<or> (\<exists>calls out. introduction_node invoke st = (calls, Inr out)
            \<and> out_operation out = Some ''introduction''
            \<and> r = \<lparr>run_updates = [(''introduction_node'', out)], run_failure = None,
                    run_states = [st, apply_update st out], run_calls = calls\<rparr>)
       \<or> (\<exists>calls out rest. introduction_node invoke st = (calls, Inr out)
            \<and> out_operation out = Some ''event_creation''
            \<and> rest = run_from (Suc (Suc 97)) invoke now ''event_extraction_node''
                       (apply_update st out)
            \<and> r = \<lparr>run_updates = (''introduction_node'', out) # run_updates rest,
                    run_failure = run_failure rest,
                    run_states = st # apply_update st out # run_states rest,
                    run_calls = calls @ run_calls rest\<rparr>)"
proof -
  obtain calls res where e: "introduction_node invoke st = (calls, res)"
    by (cases "introduction_node invoke st")
  show ?thesis
  proof (cases res)
    case (Inl err)
    with e have "run_from (Suc (Suc (Suc 97))) invoke now ''introduction_node'' st =
        \<lparr>run_updates = [], run_failure = Some err, run_states = [], run_calls = calls\<rparr>"
      by (intro run_from_fail) (simp add: node_names)
    then have "r = \<lparr>run_updates = [], run_failure = Some err, run_states = [st],
                    run_calls = calls\<rparr>"
      unfolding r_def graph_stream_def recursionLimit_Suc by (simp add: Let_def)
    with e Inl show ?thesis by blast
  next
    case (Inr out)
    note o = introduction_node_out [OF e [unfolded Inr]]
    show ?thesis
    proof (cases "out_operation out = Some ''event_creation''")
      case False
      with o have op: "out_operation out = Some ''introduction''" by blast
      have "run_from (Suc (Suc (Suc 97))) invoke now ''introduction_node'' st =
          \<lparr>run_updates = [(''introduction_node'', out)], run_failure = None,
           run_states = [apply_update st out], run_calls = calls\<rparr>"
        by (rule run_from_end)
          (simp_all add: node_names e Inr next_node_simps apply_update_fields op)
      then have "r = \<lparr>run_updates = [(''introduction_node'', out)], run_failure = None,
                    run_states = [st, apply_update st out], run_calls = calls\<rparr>"
        unfolding r_def graph_stream_def recursionLimit_Suc by (simp add: Let_def)
      with e Inr op show ?thesis by blast
    next
      case True
      define rest where "rest = run_from (Suc (Suc 97)) invoke now ''event_extraction_node''
                       (apply_update st out)"
      have "run_from (Suc (Suc (Suc 97))) invoke now ''introduction_node'' st =
          \<lparr>run_updates = (''introduction_node'', out) # run_updates rest,
           run_failure = run_failure rest,
           run_states = apply_update st out # run_states rest,
           run_calls = calls @ run_calls rest\<rparr>"
        by (rule run_from_next [where n' = "''event_extraction_node''"])
          (simp_all add: node_names e Inr next_node_simps apply_update_fields True rest_def)
      then have "r = \<lparr>run_updates = (''introduction_node'', out) # run_updates rest,
                    run_failure = run_failure rest,
                    run_states = st # apply_update st out # run_states rest,
                    run_calls = calls @ run_calls rest\<rparr>"
        unfolding r_def graph_stream_def recursionLimit_Suc by (simp add: Let_def)
      with e Inr True rest_def show ?thesis by blast
    qed
  qed
qed

text \<open>The names under which a run streams its updates.\<close>

lemma run_update_names:
  "fst ` set (run_updates (graph_stream invoke now s0))
     \<subseteq> {''introduction_node'', ''event_extraction_node'', ''nft_creation_node''}"
  using graph_stream_cases [where invoke = invoke and now = now and st = s0]
proof (elim disjE exE conjE)
  fix calls out rest
  assume rest: "rest = run_from (Suc (Suc 97)) invoke now ''event_extraction_node''
                       (apply_update s0 out)"
    and r: "graph_stream invoke now s0 =
       \<lparr>run_updates = (''introduction_node'', out) # run_updates rest,
        run_failure = run_failure rest,
        run_states = s0 # apply_update s0 out # run_states rest,
        run_calls = calls @ run_calls rest\<rparr>"
  have "fst ` set (run_updates rest) \<subseteq> {''event_extraction_node'', ''nft_creation_node''}"
    using run_from_extraction [where invoke = invoke and now = now and k = 97
        and s = "apply_update s0 out"]
    unfolding rest by (elim disjE exE conjE) simp_all
  with r show ?thesis by auto
qed simp_all

lemma run_states_shape:
  fixes invoke now inp hist
  defines "s0 \<equiv> initial_state inp hist"
  defines "sts \<equiv> run_states (graph_stream invoke now s0)"
  shows "sts = [s0]
     \<or> (\<exists>s1. sts = [s0, s1]
           \<and> eventName s1 = None \<and> eventDate s1 = None \<and> nftTicketObject s1 = None
           \<and> currentStep s1 \<noteq> Some ''completed'')
     \<or> (\<exists>s1 s2. sts = [s0, s1, s2]
           \<and> eventName s1 = None \<and> eventDate s1 = None \<and> nftTicketObject s1 = None
           \<and> currentStep s1 \<noteq> Some ''completed''
           \<and> nftTicketObject s2 = None \<and> currentStep s2 \<noteq> Some ''completed'')
     \<or> (\<exists>s1 s2 s3. sts = [s0, s1, s2, s3]
           \<and> eventName s1 = None \<and> eventDate s1 = None \<and> nftTicketObject s1 = None
           \<and> currentStep s1 \<noteq> Some ''completed''
           \<and> nftTicketObject s2 = None \<and> currentStep s2 \<noteq> Some ''completed''
           \<and> eventName s3 = eventName s2 \<and> eventDate s3 = eventDate s2
           \<and> nftTicketObject s3 \<noteq> None \<and> currentStep s3 = Some ''completed'')"
  using graph_stream_cases [where invoke = invoke and now = now and st = s0]
proof (elim disjE exE conjE)
  fix calls err
  assume "graph_stream invoke now s0 =
     \<lparr>run_updates = [], run_failure = Some err, run_states = [s0], run_calls = calls\<rparr>"
  then show ?thesis by (simp add: sts_def)
next
  fix calls out
  assume i: "introduction_node invoke s0 = (calls, Inr out)"
    and r: "graph_stream invoke now s0 =
       \<lparr>run_updates = [(''introduction_node'', out)], run_failure = None,
        run_states = [s0, apply_update s0 out], run_calls = calls\<rparr>"
  from introduction_node_out [OF i]
  have "eventName (apply_update s0 out) = None \<and> eventDate (apply_update s0 out) = None
      \<and> nftTicketObject (apply_update s0 out) = None
      \<and> currentStep (apply_update s0 out) \<noteq> Some ''completed''"
    by (auto simp: apply_update_fields s0_def initial_state_def)
  with r show ?thesis by (simp add: sts_def)
next
  fix calls out rest
  assume i: "introduction_node invoke s0 = (calls, Inr out)"
    and rest: "rest = run_from (Suc (Suc 97)) invoke now ''event_extraction_node''
                       (apply_update s0 out)"
    and r: "graph_stream invoke now s0 =
       \<lparr>run_updates = (''introduction_node'', out) # run_updates rest,
        run_failure = run_failure rest,
        run_states = s0 # apply_update s0 out # run_states rest,
        run_calls = calls @ run_calls rest\<rparr>"
  define s1 where "s1 = apply_update s0 out"
  from introduction_node_out [OF i]
  have p1: "eventName s1 = None \<and> eventDate s1 = None \<and> nftTicketObject s1 = None
      \<and> currentStep s1 \<noteq> Some ''completed''"
    by (auto simp: s1_def apply_update_fields s0_def initial_state_def)
  from r have sts: "sts = s0 # s1 # run_states rest"
    by (simp add: sts_def s1_def)
  from run_from_extraction [where invoke = invoke and now = now and k = 97 and s = s1]
  show ?thesis
    unfolding rest [symmetric, unfolded s1_def [symmetric]]
  proof (elim disjE exE conjE)
    fix calls2 err
    assume "rest = \<lparr>run_updates = [], run_failure = Some err, run_states = [],
                    run_calls = calls2\<rparr>"
    with sts p1 show ?thesis by simp
  next
    fix calls2 out2
    assume e: "event_extraction_node invoke s1 = (calls2, Inr out2)"
      and st: "out_currentStep out2 = Some ''event_extraction''"
      and "rest = \<lparr>run_updates = [(''event_extraction_node'', out2)], run_failure = None,
                    run_states = [apply_update s1 out2], run_calls = calls2\<rparr>"
    with sts have sts2: "sts = [s0, s1, apply_update s1 out2]" by simp
    from event_extraction_node_out [OF e] st p1
    have "nftTicketObject (apply_update s1 out2) = None
        \<and> currentStep (apply_update s1 out2) \<noteq> Some ''completed''"
      by (simp add: apply_update_fields)
    with sts2 p1 show ?thesis by simp
  next
    fix calls2 out2 out3
    assume e: "event_extraction_node invoke s1 = (calls2, Inr out2)"
      and st: "out_currentStep out2 = Some ''nft_creation''"
      and n: "nft_creation_node now (apply_update s1 out2) = ([], Inr out3)"
      and "rest = \<lparr>run_updates = [(''event_extraction_node'', out2), (''nft_creation_node'', out3)],
                    run_failure = None,
                    run_states = [apply_update s1 out2, apply_update (apply_update s1 out2) out3],
                    run_calls = calls2\<rparr>"
    with sts have sts3: "sts = [s0, s1, apply_update s1 out2,
        apply_update (apply_update s1 out2) out3]" by simp
    from event_extraction_node_out [OF e] st p1
    have p2: "nftTicketObject (apply_update s1 out2) = None
        \<and> currentStep (apply_update s1 out2) \<noteq> Some ''completed''"
      by (simp add: apply_update_fields)
    from nft_creation_node_out [of now "apply_update s1 out2"] n
    have p3: "eventName (apply_update (apply_update s1 out2) out3) = eventName (apply_update s1 out2)
        \<and> eventDate (apply_update (apply_update s1 out2) out3) = eventDate (apply_update s1 out2)
        \<and> nftTicketObject (apply_update (apply_update s1 out2) out3) \<noteq> None
        \<and> currentStep (apply_update (apply_update s1 out2) out3) = Some ''completed''"
      by (auto simp: apply_update_fields)
    from sts3 p1 p2 p3 show ?thesis by simp
  qed
qed

lemma initial_state_fields:
  "eventName (initial_state inp hist) = None" "eventDate (initial_state inp hist) = None"
  "nftTicketObject (initial_state inp hist) = None"
  "currentStep (initial_state inp hist) = Some ''initial''"
  by (simp_all add: initial_state_def)

text \<open>The path of an input without a keyword, whatever the model replies.\<close>

lemma introduction_path:
  assumes "\<not> isEventCreation (toLowerCase inp)"
    and "invoke (INTRODUCTION_TEMPLATE, hist, inp) = Inr content"
  shows "graph_stream invoke now (initial_state inp hist) =
     \<lparr>run_updates = [(''introduction_node'',
          no_update\<lparr>out_operation := Some ''introduction'', out_messages := [content],
                      out_currentStep := Some ''introduction_complete''\<rparr>)],
      run_failure = None,
      run_states = [initial_state inp hist,
          apply_update (initial_state inp hist)
            (no_update\<lparr>out_operation := Some ''introduction'', out_messages := [content],
                        out_currentStep := Some ''introduction_complete''\<rparr>)],
      run_calls = [(INTRODUCTION_TEMPLATE, hist, inp)]\<rparr>"
proof -
  have i: "introduction_node invoke (initial_state inp hist) =
      ([(INTRODUCTION_TEMPLATE, hist, inp)],
       Inr (no_update\<lparr>out_operation := Some ''introduction'', out_messages := [content],
                      out_currentStep := Some ''introduction_complete''\<rparr>))"
    using assms by (simp add: introduction_node_def Let_def initial_state_def)
  have "run_from (Suc (Suc (Suc 97))) invoke now ''introduction_node'' (initial_state inp hist) =
      \<lparr>run_updates = [(''introduction_node'',
          no_update\<lparr>out_operation := Some ''introduction'', out_messages := [content],
                      out_currentStep := Some ''introduction_complete''\<rparr>)],
       run_failure = None,
       run_states = [apply_update (initial_state inp hist)
            (no_update\<lparr>out_operation := Some ''introduction'', out_messages := [content],
                        out_currentStep := Some ''introduction_complete''\<rparr>)],
       run_calls = [(INTRODUCTION_TEMPLATE, hist, inp)]\<rparr>"
    by (rule run_from_end)
      (simp_all add: node_names i next_node_simps apply_update_fields no_update_def)
  then show ?thesis
    unfolding graph_stream_def recursionLimit_Suc by (simp add: Let_def)
qed

lemma hello_no_keyword: "\<not> isEventCreation (toLowerCase ''hello'')"
  by (simp add: isEventCreation_def toLowerChar_def char_of_eq_iff)

text \<open>The path of an input with a keyword when the reply carries the marker.\<close>

lemma completed_path:
  fixes invoke now inp hist reply
  defines "s0 \<equiv> initial_state inp hist"
  defines "out1 \<equiv> no_update\<lparr>out_operation := Some ''event_creation'',
                               out_currentStep := Some ''event_extraction'',
                               out_messages := []\<rparr>"
  defines "s1 \<equiv> apply_update s0 out1"
  defines "out2 \<equiv> no_update\<lparr>out_operation := Some ''event_creation'',
                               out_currentStep := Some ''nft_creation'',
                               out_eventName := part (extraction_parts reply) 0,
                               out_eventDate := part (extraction_parts reply) 1,
                               out_messages := []\<rparr>"
  defines "s2 \<equiv> apply_update s1 out2"
  defines "out3 \<equiv> no_update\<lparr>out_operation := Some ''event_creation'',
                               out_currentStep := Some ''completed'',
                               out_nftTicketObject := Some (make_ticket now s2),
                               out_messages := [ticket_message (make_ticket now s2)]\<rparr>"
  assumes kw: "isEventCreation (toLowerCase inp)"
    and reply: "invoke (formatTemplate EVENT_EXTRACTION_TEMPLATE (templateData s1), hist, inp)
                  = Inr reply"
    and marker: "startsWith reply ''EXTRACTION_COMPLETE:''"
  shows "graph_stream invoke now s0 =
     \<lparr>run_updates = [(''introduction_node'', out1), (''event_extraction_node'', out2),
                     (''nft_creation_node'', out3)],
      run_failure = None,
      run_states = [s0, s1, s2, apply_update s2 out3],
      run_calls = [(formatTemplate EVENT_EXTRACTION_TEMPLATE (templateData s1), hist, inp)]\<rparr>"
proof -
  have i: "introduction_node invoke s0 = ([], Inr out1)"
    using kw by (simp add: introduction_node_def s0_def initial_state_def out1_def)
  have io: "input s1 = inp" "chat_history s1 = hist" "operation s1 = Some ''event_creation''"
    by (simp_all add: s1_def apply_update_def s0_def initial_state_def out1_def no_update_def)
  have e: "event_extraction_node invoke s1 =
      ([(formatTemplate EVENT_EXTRACTION_TEMPLATE (templateData s1), hist, inp)], Inr out2)"
    using reply marker by (simp add: event_extraction_node_def Let_def io out2_def)
  have st: "currentStep s2 = Some ''nft_creation''"
    by (simp add: s2_def apply_update_fields out2_def no_update_def)
  have n: "nft_creation_node now s2 = ([], Inr out3)"
    by (simp add: nft_creation_node_def Let_def out3_def)
  have r3: "run_from (Suc 97) invoke now ''nft_creation_node'' s2 =
      \<lparr>run_updates = [(''nft_creation_node'', out3)], run_failure = None,
       run_states = [apply_update s2 out3], run_calls = []\<rparr>"
    by (rule run_from_end) (simp_all add: node_names n next_node_simps)
  have r2: "run_from (Suc (Suc 97)) invoke now ''event_extraction_node'' s1 =
      \<lparr>run_updates = [(''event_extraction_node'', out2), (''nft_creation_node'', out3)],
       run_failure = None, run_states = [s2, apply_update s2 out3],
       run_calls = [(formatTemplate EVENT_EXTRACTION_TEMPLATE (templateData s1), hist, inp)]\<rparr>"
    using run_from_next [where n = "''event_extraction_node''"
        and n' = "''nft_creation_node''" and s = s1 and out = out2 and k = "Suc 97"
        and invoke = invoke and now = now, OF _ _ r3 [unfolded s2_def]]
    by (simp add: node_names e next_node_simps st [unfolded s2_def] s2_def)
  have r1: "run_from (Suc (Suc (Suc 97))) invoke now ''introduction_node'' s0 =
      \<lparr>run_updates = [(''introduction_node'', out1), (''event_extraction_node'', out2),
                      (''nft_creation_node'', out3)],
       run_failure = None, run_states = [s1, s2, apply_update s2 out3],
       run_calls = [(formatTemplate EVENT_EXTRACTION_TEMPLATE (templateData s1), hist, inp)]\<rparr>"
    using run_from_next [where n = "''introduction_node''"
        and n' = "''event_extraction_node''" and s = s0 and out = out1 and k = "Suc (Suc 97)"
        and invoke = invoke and now = now, OF _ _ r2 [unfolded s1_def]]
    by (simp add: node_names i next_node_simps io(3) [unfolded s1_def] s1_def)
  show ?thesis
    unfolding graph_stream_def recursionLimit_Suc Let_def r1 by simp
qed

text \<open>The path of an input with a keyword when the reply does not carry the marker.\<close>

lemma question_path:
  fixes invoke now inp hist reply
  defines "s0 \<equiv> initial_state inp hist"
  defines "out1 \<equiv> no_update\<lparr>out_operation := Some ''event_creation'',
                               out_currentStep := Some ''event_extraction'',
                               out_messages := []\<rparr>"
  defines "s1 \<equiv> apply_update s0 out1"
  defines "out2 \<equiv> no_update\<lparr>out_operation := Some ''event_creation'',
                               out_currentStep := Some ''event_extraction'',
                               out_messages := [reply]\<rparr>"
  assumes kw: "isEventCreation (toLowerCase inp)"
    and reply: "invoke (formatTemplate EVENT_EXTRACTION_TEMPLATE (templateData s1), hist, inp)
                  = Inr reply"
    and marker: "\<not> startsWith reply ''EXTRACTION_COMPLETE:''"
  shows "graph_stream invoke now s0 =
     \<lparr>run_updates = [(''introduction_node'', out1), (''event_extraction_node'', out2)],
      run_failure = None,
      run_states = [s0, s1, apply_update s1 out2],
      run_calls = [(formatTemplate EVENT_EXTRACTION_TEMPLATE (templateData s1), hist, inp)]\<rparr>"
proof -
  have i: "introduction_node invoke s0 = ([], Inr out1)"
    using kw by (simp add: introduction_node_def s0_def initial_state_def out1_def)
  have io: "input s1 = inp" "chat_history s1 = hist" "operation s1 = Some ''event_creation''"
    by (simp_all add: s1_def apply_update_def s0_def initial_state_def out1_def no_update_def)
  have e: "event_extraction_node invoke s1 =
      ([(formatTemplate EVENT_EXTRACTION_TEMPLATE (templateData s1), hist, inp)], Inr out2)"
    using reply marker by (simp add: event_extraction_node_def Let_def io out2_def)
  have st: "currentStep (apply_update s1 out2) = Some ''event_extraction''"
    by (simp add: apply_update_fields out2_def no_update_def)
  have r2: "run_from (Suc (Suc 97)) invoke now ''event_extraction_node'' s1 =
      \<lparr>run_updates = [(''event_extraction_node'', out2)], run_failure = None,
       run_states = [apply_update s1 out2],
       run_calls = [(formatTemplate EVENT_EXTRACTION_TEMPLATE (templateData s1), hist, inp)]\<rparr>"
    by (rule run_from_end) (simp_all add: node_names e next_node_simps st)
  have r1: "run_from (Suc (Suc (Suc 97))) invoke now ''introduction_node'' s0 =
      \<lparr>run_updates = [(''introduction_node'', out1), (''event_extraction_node'', out2)],
       run_failure = None, run_states = [s1, apply_update s1 out2],
       run_calls = [(formatTemplate EVENT_EXTRACTION_TEMPLATE (templateData s1), hist, inp)]\<rparr>"
    using run_from_next [where n = "''introduction_node''"
        and n' = "''event_extraction_node''" and s = s0 and out = out1 and k = "Suc (Suc 97)"
        and invoke = invoke and now = now, OF _ _ r2 [unfolded s1_def]]
    by (simp add: node_names i next_node_simps io(3) [unfolded s1_def] s1_def)
  show ?thesis
    unfolding graph_stream_def recursionLimit_Suc Let_def r1 by simp
qed

lemma create_keyword: "isEventCreation (toLowerCase ''create an event'')"
  by (simp add: isEventCreation_def toLowerChar_def char_of_eq_iff)

lemmas summer_gala_run =
  completed_path [where inp = "''create an event''" and hist = "[]"
    and invoke = "\<lambda>call. Inr ''EXTRACTION_COMPLETE: Summer Gala | 25/12/2025''"
    and reply = "''EXTRACTION_COMPLETE: Summer Gala | 25/12/2025''"
    and now = "''2026-01-01T00:00:00.000Z''", OF create_keyword refl]

section \<open>Invariants of a run\<close>

text \<open>
  C8, as the code has it. In every state a run goes through, from the state it starts
  in to the state after its last node, the ticket object is set if and only if the step
  is "completed", the step the ticket-creation node sets. So no stage but the
  specification's Completed holds a ticket object; and a state whose step is
  "introduction_complete", which the specification calls Completed too, holds none.
\<close>

theorem ticket_object_iff_step_completed:
  assumes "s \<in> set (run_states (graph_stream invoke now (initial_state inp hist)))"
  shows "(nftTicketObject s \<noteq> None) = (currentStep s = Some ''completed'')
     \<and> (nftTicketObject s \<noteq> None \<longrightarrow> spec_stage (currentStep s) = Some Completed)
     \<and> (currentStep s = Some ''introduction_complete'' \<longrightarrow> nftTicketObject s = None)"
proof -
  from run_states_shape [of invoke now inp hist] assms
  have "(nftTicketObject s \<noteq> None) = (currentStep s = Some ''completed'')"
    by (elim disjE exE conjE) (auto simp: initial_state_fields)
  then show ?thesis by (auto simp: spec_stage_def)
qed

text \<open>
  C8 as stated fails at the end of a run whose input has no keyword: the run has not
  failed, no node follows, the stage is the specification's Completed, and there is no
  ticket object.
\<close>

theorem introduction_end_has_no_ticket_counterexample:
  "run_failure (graph_stream (\<lambda>call. Inr ''Welcome to Adaptic!'')
       ''2026-01-01T00:00:00.000Z'' (initial_state ''hello'' [])) = None
   \<and> next_node ''introduction_node'' (last (run_states (graph_stream
       (\<lambda>call. Inr ''Welcome to Adaptic!'')
       ''2026-01-01T00:00:00.000Z'' (initial_state ''hello'' [])))) = None
   \<and> spec_stage (currentStep (last (run_states (graph_stream
       (\<lambda>call. Inr ''Welcome to Adaptic!'')
       ''2026-01-01T00:00:00.000Z'' (initial_state ''hello'' []))))) = Some Completed
   \<and> nftTicketObject (last (run_states (graph_stream
       (\<lambda>call. Inr ''Welcome to Adaptic!'')
       ''2026-01-01T00:00:00.000Z'' (initial_state ''hello'' [])))) = None"
  unfolding introduction_path [OF hello_no_keyword, of "\<lambda>call. Inr ''Welcome to Adaptic!''"
      "[]" "''Welcome to Adaptic!''" "''2026-01-01T00:00:00.000Z''", OF refl]
  by (simp add: apply_update_fields no_update_def next_node_simps spec_stage_def
      initial_state_fields)

theorem ticket_object_witness:
  "nftTicketObject (last (run_states (graph_stream
       (\<lambda>call. Inr ''EXTRACTION_COMPLETE: Summer Gala | 25/12/2025'')
       ''2026-01-01T00:00:00.000Z'' (initial_state ''create an event'' [])))) \<noteq> None
   \<and> currentStep (last (run_states (graph_stream
       (\<lambda>call. Inr ''EXTRACTION_COMPLETE: Summer Gala | 25/12/2025'')
       ''2026-01-01T00:00:00.000Z'' (initial_state ''create an event'' []))))
     = Some ''completed''
   \<and> spec_stage (currentStep (last (run_states (graph_stream
       (\<lambda>call. Inr ''EXTRACTION_COMPLETE: Summer Gala | 25/12/2025'')
       ''2026-01-01T00:00:00.000Z'' (initial_state ''create an event'' [])))))
     = Some Completed"
proof -
  have marker: "startsWith ''EXTRACTION_COMPLETE: Summer Gala | 25/12/2025'' ''EXTRACTION_COMPLETE:''"
    by simp
  note R = summer_gala_run [OF marker]
  have m: "last (run_states (graph_stream
       (\<lambda>call. Inr ''EXTRACTION_COMPLETE: Summer Gala | 25/12/2025'')
       ''2026-01-01T00:00:00.000Z'' (initial_state ''create an event'' [])))
     \<in> set (run_states (graph_stream
       (\<lambda>call. Inr ''EXTRACTION_COMPLETE: Summer Gala | 25/12/2025'')
       ''2026-01-01T00:00:00.000Z'' (initial_state ''create an event'' [])))"
    unfolding R by simp
  have c: "currentStep (last (run_states (graph_stream
       (\<lambda>call. Inr ''EXTRACTION_COMPLETE: Summer Gala | 25/12/2025'')
       ''2026-01-01T00:00:00.000Z'' (initial_state ''create an event'' []))))
     = Some ''completed''"
    unfolding R by (simp add: apply_update_fields no_update_def)
  from ticket_object_iff_step_completed [OF m] c show ?thesis by simp
qed

lemma chain_preserved:
  assumes step: "\<And>k. Suc k < length xs \<Longrightarrow> R (xs ! k) (xs ! Suc k)"
    and refl: "\<And>x. R x x"
    and trans: "\<And>x y z. R x y \<Longrightarrow> R y z \<Longrightarrow> R x z"
  shows "i \<le> j \<Longrightarrow> j < length xs \<Longrightarrow> R (xs ! i) (xs ! j)"
proof (induction j)
  case 0
  then show ?case by (simp add: refl)
next
  case (Suc j)
  show ?case
  proof (cases "i = Suc j")
    case True
    then show ?thesis by (simp add: refl)
  next
    case False
    with Suc.prems have "i \<le> j" "j < length xs" by simp_all
    with Suc.IH have "R (xs ! i) (xs ! j)" by simp
    moreover from Suc.prems have "R (xs ! j) (xs ! Suc j)" by (intro step) simp
    ultimately show ?thesis by (rule trans)
  qed
qed

lemma run_states_keep:
  assumes "Suc k < length (run_states (graph_stream invoke now (initial_state inp hist)))"
  shows "keeps (run_states (graph_stream invoke now (initial_state inp hist)) ! k)
               (run_states (graph_stream invoke now (initial_state inp hist)) ! Suc k)"
  using run_states_shape [of invoke now inp hist] assms
  by (elim disjE exE conjE)
     (auto simp: initial_state_fields keeps_def less_Suc_eq nth_Cons')

text \<open>
  C9. Among the states a run goes through, a later state holds every value of eventName
  and eventDate that an earlier state holds. And whatever outputs the reducers merge
  into a state, in whatever order, a name or date that is set is never unset.
\<close>

theorem event_fields_never_unset:
  "(\<forall>i j. i \<le> j \<and> j < length (run_states (graph_stream invoke now (initial_state inp hist)))
       \<longrightarrow> keeps (run_states (graph_stream invoke now (initial_state inp hist)) ! i)
                 (run_states (graph_stream invoke now (initial_state inp hist)) ! j))
   \<and> (eventName s \<noteq> None \<longrightarrow> eventName (foldl apply_update s outs) \<noteq> None)
   \<and> (eventDate s \<noteq> None \<longrightarrow> eventDate (foldl apply_update s outs) \<noteq> None)"
proof (intro conjI allI impI)
  fix i j
  assume ij: "i \<le> j \<and> j < length (run_states (graph_stream invoke now (initial_state inp hist)))"
  show "keeps (run_states (graph_stream invoke now (initial_state inp hist)) ! i)
                 (run_states (graph_stream invoke now (initial_state inp hist)) ! j)"
  proof (rule chain_preserved [where R = keeps])
    fix k
    assume "Suc k < length (run_states (graph_stream invoke now (initial_state inp hist)))"
    then show "keeps (run_states (graph_stream invoke now (initial_state inp hist)) ! k)
               (run_states (graph_stream invoke now (initial_state inp hist)) ! Suc k)"
      by (rule run_states_keep)
  next
    fix x show "keeps x x" by (simp add: keeps_def)
  next
    fix x y z assume "keeps x y" "keeps y z" then show "keeps x z" by (simp add: keeps_def)
  next
    from ij show "i \<le> j" by simp
  next
    from ij show "j < length (run_states (graph_stream invoke now (initial_state inp hist)))"
      by simp
  qed
next
  assume "eventName s \<noteq> None"
  then show "eventName (foldl apply_update s outs) \<noteq> None"
  proof (induction outs arbitrary: s)
    case Nil
    then show ?case by simp
  next
    case (Cons out outs)
    from Cons.prems have "eventName (apply_update s out) \<noteq> None"
      by (cases "out_eventName out") (simp_all add: apply_update_fields)
    with Cons.IH show ?case by simp
  qed
next
  assume "eventDate s \<noteq> None"
  then show "eventDate (foldl apply_update s outs) \<noteq> None"
  proof (induction outs arbitrary: s)
    case Nil
    then show ?case by simp
  next
    case (Cons out outs)
    from Cons.prems have "eventDate (apply_update s out) \<noteq> None"
      by (cases "out_eventDate out") (simp_all add: apply_update_fields)
    with Cons.IH show ?case by simp
  qed
qed

theorem event_fields_witness:
  "eventName (run_states (graph_stream
       (\<lambda>call. Inr ''EXTRACTION_COMPLETE: Summer Gala | 25/12/2025'')
       ''2026-01-01T00:00:00.000Z'' (initial_state ''create an event'' [])) ! 2)
     = Some ''Summer Gala''
   \<and> eventName (run_states (graph_stream
       (\<lambda>call. Inr ''EXTRACTION_COMPLETE: Summer Gala | 25/12/2025'')
       ''2026-01-01T00:00:00.000Z'' (initial_state ''create an event'' [])) ! 3)
     = Some ''Summer Gala''
   \<and> eventDate (run_states (graph_stream
       (\<lambda>call. Inr ''EXTRACTION_COMPLETE: Summer Gala | 25/12/2025'')
       ''2026-01-01T00:00:00.000Z'' (initial_state ''create an event'' [])) ! 3)
     = Some ''25/12/2025''"
proof -
  let ?sts = "run_states (graph_stream
       (\<lambda>call. Inr ''EXTRACTION_COMPLETE: Summer Gala | 25/12/2025'')
       ''2026-01-01T00:00:00.000Z'' (initial_state ''create an event'' []))"
  have marker: "startsWith ''EXTRACTION_COMPLETE: Summer Gala | 25/12/2025'' ''EXTRACTION_COMPLETE:''"
    by simp
  note R = summer_gala_run [OF marker]
  have len: "(2::nat) \<le> 3 \<and> 3 < length ?sts"
    unfolding R by simp
  have set2: "eventName (?sts ! 2) = Some ''Summer Gala''"
    "eventDate (?sts ! 2) = Some ''25/12/2025''"
    unfolding R
    by (simp_all add: apply_update_fields no_update_def summer_gala_parts part_def)
  from event_fields_never_unset
    [of "\<lambda>call. Inr ''EXTRACTION_COMPLETE: Summer Gala | 25/12/2025''"
        "''2026-01-01T00:00:00.000Z''" "''create an event''" "[]"
        "initial_state ''create an event'' []" "[]"] len
  have "keeps (?sts ! 2) (?sts ! 3)" by blast
  with set2 show ?thesis by (simp add: keeps_def)
qed

section \<open>The stream loop\<close>

lemma on_entry_graph_node:
  assumes "n \<in> {''introduction_node'', ''event_extraction_node'', ''nft_creation_node''}"
  shows "on_entry parse (n, out) s = s"
  using assms by (auto simp: on_entry_def Let_def split: option.splits)

lemma stream_loop_graph_nodes:
  assumes "fst ` set us \<subseteq> {''introduction_node'', ''event_extraction_node'', ''nft_creation_node''}"
  shows "stream_loop parse us s = s"
  using assms
proof (induction us arbitrary: s)
  case Nil
  show ?case by (simp add: stream_loop_def)
next
  case (Cons u us)
  obtain n out where u: "u = (n, out)" by (cases u)
  from Cons.prems u have n: "n \<in> {''introduction_node'', ''event_extraction_node'', ''nft_creation_node''}"
    by simp
  from Cons.prems have "fst ` set us \<subseteq> {''introduction_node'', ''event_extraction_node'', ''nft_creation_node''}"
    by simp
  from Cons.IH [OF this] have "\<And>s. stream_loop parse us s = s" .
  then show ?case
    using on_entry_graph_node [OF n, of parse out s]
    by (simp add: stream_loop_def u)
qed

text \<open>What the handler writes for a run of the graph: no update of the run reaches the
  client.\<close>

lemma agent_handler_events:
  "agent_handler parse invoke now inp history =
     (case run_failure (graph_stream invoke now
                          (initial_state inp (convertChatHistoryToMessages history))) of
        None \<Rightarrow> [End]
      | Some err \<Rightarrow>
          [Message ''I apologize, but I encountered an error processing your request. Please try again.'',
           Error (if err = [] then ''An error occurred on the server.'' else err),
           End])"
  by (simp add: agent_handler_def handle_stream_def Let_def
      stream_loop_graph_nodes [OF run_update_names] new_session_def sendEvent_def
      split: option.splits)

text \<open>
  C1, at a run the program can make. The input "hello" has no keyword and the model
  replies "Welcome to Adaptic!". The run makes one model call and ends after the
  introduction node, whose update carries the reply; the handler writes the end of the
  stream and nothing else, neither the loading event nor the message, because it looks
  for a node named initial_node and the graph's node is named introduction_node.
\<close>

theorem hello_run_emits_only_end:
  "agent_handler parse (\<lambda>call. Inr ''Welcome to Adaptic!'') now ''hello'' [] = [End]
   \<and> run_updates (graph_stream (\<lambda>call. Inr ''Welcome to Adaptic!'') now (initial_state ''hello'' []))
      = [(''introduction_node'',
          no_update\<lparr>out_operation := Some ''introduction'',
                      out_messages := [''Welcome to Adaptic!''],
                      out_currentStep := Some ''introduction_complete''\<rparr>)]
   \<and> length (run_calls (graph_stream (\<lambda>call. Inr ''Welcome to Adaptic!'') now
                           (initial_state ''hello'' []))) = 1"
  using introduction_path [OF hello_no_keyword, of "\<lambda>call. Inr ''Welcome to Adaptic!''" "[]"
      "''Welcome to Adaptic!''" now]
  by (simp add: agent_handler_events convertChatHistoryToMessages_def)

lemma obj_parts:
  "extraction_parts ''EXTRACTION_COMPLETE: [OBJ]{}[/OBJ] | 01/01/2026''
     = [''[OBJ]{}[/OBJ]'', ''01/01/2026'']"
  by (simp add: extraction_parts_def trim_def trimEnd_def isSpace1_def isSpace2_def
      isSpace3_def)

text \<open>
  C3, at a run the program can make. The input "create an event" has a keyword; the
  model answers the extraction stage with
  "EXTRACTION_COMPLETE: [OBJ]{}[/OBJ] | 01/01/2026". The three nodes run, and the
  first message of the ticket-creation node holds the embedded object "{}". The handler
  writes neither a wager event nor a message for it: the only event is the end of the
  stream, because the handler looks for a node named wager_validation_node and the
  graph's node is named nft_creation_node.
\<close>

theorem ticket_stage_object_not_relayed:
  "map fst (run_updates (graph_stream
        (\<lambda>call. Inr ''EXTRACTION_COMPLETE: [OBJ]{}[/OBJ] | 01/01/2026'')
        now (initial_state ''create an event'' [])))
     = [''introduction_node'', ''event_extraction_node'', ''nft_creation_node'']
   \<and> map (\<lambda>e. map_option match_OBJ (first_message (snd e)))
        (run_updates (graph_stream
          (\<lambda>call. Inr ''EXTRACTION_COMPLETE: [OBJ]{}[/OBJ] | 01/01/2026'')
          now (initial_state ''create an event'' [])))
     = [None, None, Some (Some ''{}'')]
   \<and> agent_handler parse (\<lambda>call. Inr ''EXTRACTION_COMPLETE: [OBJ]{}[/OBJ] | 01/01/2026'')
        now ''create an event'' [] = [End]"
proof -
  have marker: "startsWith ''EXTRACTION_COMPLETE: [OBJ]{}[/OBJ] | 01/01/2026'' ''EXTRACTION_COMPLETE:''"
    by simp
  note R = completed_path [where inp = "''create an event''" and hist = "[]"
    and invoke = "\<lambda>call. Inr ''EXTRACTION_COMPLETE: [OBJ]{}[/OBJ] | 01/01/2026''"
    and reply = "''EXTRACTION_COMPLETE: [OBJ]{}[/OBJ] | 01/01/2026''"
    and now = now, OF create_keyword refl marker]
  have names: "map fst (run_updates (graph_stream
        (\<lambda>call. Inr ''EXTRACTION_COMPLETE: [OBJ]{}[/OBJ] | 01/01/2026'')
        now (initial_state ''create an event'' [])))
     = [''introduction_node'', ''event_extraction_node'', ''nft_creation_node'']"
    unfolding R by simp
  have msgs: "map (\<lambda>e. map_option match_OBJ (first_message (snd e)))
        (run_updates (graph_stream
          (\<lambda>call. Inr ''EXTRACTION_COMPLETE: [OBJ]{}[/OBJ] | 01/01/2026'')
          now (initial_state ''create an event'' [])))
     = [None, None, Some (Some ''{}'')]"
    unfolding R
    by (simp add: first_message_def no_update_def ticket_message_def make_ticket_def
        or_default_def apply_update_def obj_parts part_def lineTerminatorAt_def)
  have "run_failure (graph_stream
        (\<lambda>call. Inr ''EXTRACTION_COMPLETE: [OBJ]{}[/OBJ] | 01/01/2026'')
        now (initial_state ''create an event'' [])) = None"
    unfolding R by simp
  then have "agent_handler parse (\<lambda>call. Inr ''EXTRACTION_COMPLETE: [OBJ]{}[/OBJ] | 01/01/2026'')
        now ''create an event'' [] = [End]"
    by (simp add: agent_handler_events convertChatHistoryToMessages_def)
  with names msgs show ?thesis by simp
qed

text \<open>For a node of the name the handler looks for, the embedded object is parsed and sent
  as a wager event, or the diagnostic message is sent when parsing fails.\<close>

lemma wager_validation_node_entry:
  assumes "first_message out = Some message" and "match_OBJ message = Some payload"
  shows "sent (on_entry parse (''wager_validation_node'', out) s) =
     sent s @ [case parse payload of
                 Some wagerObject \<Rightarrow> Wager ''Wager created successfully!'' wagerObject
               | None \<Rightarrow> Message ''Error creating wager object'']"
  using assms by (simp add: on_entry_def Let_def sendEvent_def split: option.splits)

section \<open>Failures\<close>

lemma stream_loop_Cons:
  "stream_loop parse (u # us) s = stream_loop parse us (on_entry parse u s)"
  by (simp add: stream_loop_def)

lemma on_entry_complete:
  "initialNodeComplete (on_entry parse (n, out) s) =
     (initialNodeComplete s \<or> n = ''initial_node'' \<and> first_message out \<noteq> None)"
  by (auto simp: on_entry_def Let_def sendEvent_def split: option.splits)

lemma stream_loop_complete:
  "initialNodeComplete (stream_loop parse us s) =
     (initialNodeComplete s
      \<or> (\<exists>e\<in>set us. fst e = ''initial_node'' \<and> first_message (snd e) \<noteq> None))"
proof (induction us arbitrary: s)
  case Nil
  show ?case by (simp add: stream_loop_def)
next
  case (Cons u us)
  obtain n out where u: "u = (n, out)" by (cases u)
  show ?case
    unfolding stream_loop_Cons Cons.IH by (auto simp: u on_entry_complete)
qed

lemma on_entry_no_end:
  "End \<notin> set (sent s) \<Longrightarrow> End \<notin> set (sent (on_entry parse e s))"
  by (cases e) (auto simp: on_entry_def Let_def sendEvent_def split: option.splits)

lemma stream_loop_no_end:
  "End \<notin> set (sent s) \<Longrightarrow> End \<notin> set (sent (stream_loop parse us s))"
proof (induction us arbitrary: s)
  case Nil
  then show ?case by (simp add: stream_loop_def)
next
  case (Cons u us)
  from Cons.prems have "End \<notin> set (sent (on_entry parse u s))" by (rule on_entry_no_end)
  then show ?case unfolding stream_loop_Cons by (rule Cons.IH)
qed

text \<open>
  C7. When the stream fails after any updates, the handler writes, after the events of
  those updates, the apology message unless a message of the node initial_node has been
  sent, then the error event with the failure's message (a fixed text when that message
  is empty), then the end event. A stream that does not fail is closed by the end event
  too, and no event before the last is an end event. For a run of the graph that fails,
  the events are the apology, the error and the end.
\<close>

theorem failure_is_reported_and_stream_ends:
  "handle_stream parse updates (Some err) =
      sent (stream_loop parse updates new_session)
      @ (if \<exists>e\<in>set updates. fst e = ''initial_node'' \<and> first_message (snd e) \<noteq> None
         then []
         else [Message ''I apologize, but I encountered an error processing your request. Please try again.''])
      @ [Error (if err = [] then ''An error occurred on the server.'' else err), End]
   \<and> handle_stream parse updates None = sent (stream_loop parse updates new_session) @ [End]
   \<and> End \<notin> set (sent (stream_loop parse updates new_session))
   \<and> (run_failure (graph_stream invoke now
          (initial_state inp (convertChatHistoryToMessages history))) = Some err
        \<longrightarrow> agent_handler parse invoke now inp history =
          [Message ''I apologize, but I encountered an error processing your request. Please try again.'',
           Error (if err = [] then ''An error occurred on the server.'' else err),
           End])"
proof -
  have c: "initialNodeComplete (stream_loop parse updates new_session) =
      (\<exists>e\<in>set updates. fst e = ''initial_node'' \<and> first_message (snd e) \<noteq> None)"
    by (simp add: stream_loop_complete new_session_def)
  have a: "handle_stream parse updates (Some err) =
      sent (stream_loop parse updates new_session)
      @ (if \<exists>e\<in>set updates. fst e = ''initial_node'' \<and> first_message (snd e) \<noteq> None
         then []
         else [Message ''I apologize, but I encountered an error processing your request. Please try again.''])
      @ [Error (if err = [] then ''An error occurred on the server.'' else err), End]"
    unfolding c [symmetric] by (simp add: handle_stream_def Let_def sendEvent_def)
  have b: "handle_stream parse updates None = sent (stream_loop parse updates new_session) @ [End]"
    by (simp add: handle_stream_def Let_def sendEvent_def)
  have d: "End \<notin> set (sent (stream_loop parse updates new_session))"
    by (rule stream_loop_no_end) (simp add: new_session_def)
  from a b d show ?thesis by (simp add: agent_handler_events)
qed

theorem failure_is_reported_witness:
  "handle_stream (\<lambda>text. Some text) [] (Some ''model call failed'') =
     [Message ''I apologize, but I encountered an error processing your request. Please try again.'',
      Error ''model call failed'', End]
   \<and> agent_handler (\<lambda>text. Some text) (\<lambda>call. Inl ''model call failed'') ''2026'' ''hello'' [] =
     [Message ''I apologize, but I encountered an error processing your request. Please try again.'',
      Error ''model call failed'', End]"
proof -
  have "introduction_node (\<lambda>call. Inl ''model call failed'') (initial_state ''hello'' [])
      = ([(INTRODUCTION_TEMPLATE, [], ''hello'')], Inl ''model call failed'')"
    by (simp add: introduction_node_def initial_state_def Let_def isEventCreation_def
        toLowerChar_def char_of_eq_iff)
  then have "run_from (Suc (Suc (Suc 97))) (\<lambda>call. Inl ''model call failed'') ''2026''
        ''introduction_node'' (initial_state ''hello'' []) =
      \<lparr>run_updates = [], run_failure = Some ''model call failed'', run_states = [],
       run_calls = [(INTRODUCTION_TEMPLATE, [], ''hello'')]\<rparr>"
    by (intro run_from_fail) (simp add: node_names)
  then have f: "run_failure (graph_stream (\<lambda>call. Inl ''model call failed'') ''2026''
      (initial_state ''hello'' (convertChatHistoryToMessages []))) = Some ''model call failed''"
    unfolding graph_stream_def recursionLimit_Suc
    by (simp add: Let_def convertChatHistoryToMessages_def)
  from failure_is_reported_and_stream_ends
    [of "\<lambda>text. Some text" "[]" "''model call failed''" "\<lambda>call. Inl ''model call failed''"
        "''2026''" "''hello''" "[]"] f
  show ?thesis
    by (simp add: stream_loop_def new_session_def)
qed

section \<open>Only the first message\<close>

lemma first_message_take:
  "first_message (out\<lparr>out_messages := take 1 (out_messages out)\<rparr>) = first_message out"
  by (cases "out_messages out") (simp_all add: first_message_def)

lemma on_entry_first_message:
  assumes "first_message out' = first_message out"
  shows "on_entry parse (n, out') s = on_entry parse (n, out) s"
  using assms by (simp add: on_entry_def)

lemma stream_loop_take:
  "stream_loop parse
     (map (\<lambda>e. (fst e, (snd e)\<lparr>out_messages := take 1 (out_messages (snd e))\<rparr>)) us) s
   = stream_loop parse us s"
proof (induction us arbitrary: s)
  case Nil
  show ?case by simp
next
  case (Cons u us)
  let ?f = "\<lambda>e. (fst e, (snd e)\<lparr>out_messages := take 1 (out_messages (snd e))\<rparr>)"
  have "on_entry parse (fst u, (snd u)\<lparr>out_messages := take 1 (out_messages (snd u))\<rparr>) s
      = on_entry parse (fst u, snd u) s"
    by (rule on_entry_first_message) (rule first_message_take)
  then have e: "on_entry parse (?f u) s = on_entry parse u s" by simp
  have "stream_loop parse (map ?f (u # us)) s
      = stream_loop parse (map ?f us) (on_entry parse (?f u) s)"
    by (simp only: list.map stream_loop_Cons)
  also have "\<dots> = stream_loop parse (map ?f us) (on_entry parse u s)"
    by (simp only: e)
  also have "\<dots> = stream_loop parse us (on_entry parse u s)"
    by (rule Cons.IH)
  finally show ?case by (simp only: stream_loop_Cons)
qed

lemma on_entry_messages:
  assumes "Message m \<in> set (sent (on_entry parse e s))"
  shows "Message m \<in> set (sent s) \<or> m = ''Error creating wager object''
         \<or> (out_messages (snd e) \<noteq> [] \<and> m = hd (out_messages (snd e)))"
  using assms
  by (cases e)
     (auto simp: on_entry_def Let_def sendEvent_def first_message_def
           split: option.splits if_splits list.splits)

lemma stream_loop_messages:
  assumes "Message m \<in> set (sent (stream_loop parse us s))"
  shows "Message m \<in> set (sent s) \<or> m = ''Error creating wager object''
         \<or> (\<exists>e\<in>set us. out_messages (snd e) \<noteq> [] \<and> m = hd (out_messages (snd e)))"
  using assms
proof (induction us arbitrary: s)
  case Nil
  then show ?case by (simp add: stream_loop_def)
next
  case (Cons u us)
  from Cons.prems have "Message m \<in> set (sent (stream_loop parse us (on_entry parse u s)))"
    by (simp add: stream_loop_Cons)
  from Cons.IH [OF this] on_entry_messages [of m parse u s]
  show ?case by auto
qed

text \<open>No second or later message of an update has any effect on the stream: the events are
  the same when every update's list of messages is cut after its first element, and
  every message event of the loop carries the first message of an update or the fixed
  diagnostic text.\<close>

lemma later_messages_have_no_effect:
  "handle_stream parse
     (map (\<lambda>e. (fst e, (snd e)\<lparr>out_messages := take 1 (out_messages (snd e))\<rparr>)) updates)
     failure
   = handle_stream parse updates failure
   \<and> (\<forall>m. Message m \<in> set (sent (stream_loop parse updates new_session)) \<longrightarrow>
          m = ''Error creating wager object''
          \<or> (\<exists>e\<in>set updates. out_messages (snd e) \<noteq> [] \<and> m = hd (out_messages (snd e))))"
proof -
  have "\<forall>m. Message m \<in> set (sent (stream_loop parse updates new_session)) \<longrightarrow>
          m = ''Error creating wager object''
          \<or> (\<exists>e\<in>set updates. out_messages (snd e) \<noteq> [] \<and> m = hd (out_messages (snd e)))"
    using stream_loop_messages [of _ parse updates new_session]
    by (auto simp: new_session_def)
  moreover have "handle_stream parse
     (map (\<lambda>e. (fst e, (snd e)\<lparr>out_messages := take 1 (out_messages (snd e))\<rparr>)) updates)
     failure
   = handle_stream parse updates failure"
    unfolding handle_stream_def stream_loop_take ..
  ultimately show ?thesis by blast
qed

text \<open>For a node of either name the handler looks for, the first message of an update that
  asks for more information is sent as a message event.\<close>

lemma details_extraction_node_entry:
  assumes "first_message out = Some message"
    and "n = ''wager_info_extraction_node'' \<or> n = ''event_details_extraction_node''"
  shows "sent (on_entry parse (n, out) s) = sent s @ [Message message]"
  using assms by (auto simp: on_entry_def Let_def sendEvent_def)

text \<open>
  C10, at a run the program can make. The input "create an event" has a keyword; the
  model answers the extraction stage with the question "What is the date of your
  event?", which does not carry the marker. The extraction node's update has that
  question as the first and only element of its messages. The handler does not relay
  it: the only event is the end of the stream, because the handler looks for nodes
  named wager_info_extraction_node and event_details_extraction_node and the graph's
  node is named event_extraction_node.
\<close>

theorem clarifying_question_not_relayed:
  "run_updates (graph_stream (\<lambda>call. Inr ''What is the date of your event?'')
       now (initial_state ''create an event'' []))
     = [(''introduction_node'',
          no_update\<lparr>out_operation := Some ''event_creation'',
                      out_currentStep := Some ''event_extraction'', out_messages := []\<rparr>),
        (''event_extraction_node'',
          no_update\<lparr>out_operation := Some ''event_creation'',
                      out_currentStep := Some ''event_extraction'',
                      out_messages := [''What is the date of your event?'']\<rparr>)]
   \<and> agent_handler parse (\<lambda>call. Inr ''What is the date of your event?'')
        now ''create an event'' [] = [End]"
proof -
  have marker: "\<not> startsWith ''What is the date of your event?'' ''EXTRACTION_COMPLETE:''"
    by simp
  note R = question_path [where inp = "''create an event''" and hist = "[]"
    and invoke = "\<lambda>call. Inr ''What is the date of your event?''"
    and reply = "''What is the date of your event?''"
    and now = now, OF create_keyword refl marker]
  have "run_failure (graph_stream (\<lambda>call. Inr ''What is the date of your event?'')
       now (initial_state ''create an event'' [])) = None"
    unfolding R by simp
  then have "agent_handler parse (\<lambda>call. Inr ''What is the date of your event?'')
        now ''create an event'' [] = [End]"
    by (simp add: agent_handler_events convertChatHistoryToMessages_def)
  moreover have "run_updates (graph_stream (\<lambda>call. Inr ''What is the date of your event?'')
       now (initial_state ''create an event'' []))
     = [(''introduction_node'',
          no_update\<lparr>out_operation := Some ''event_creation'',
                      out_currentStep := Some ''event_extraction'', out_messages := []\<rparr>),
        (''event_extraction_node'',
          no_update\<lparr>out_operation := Some ''event_creation'',
                      out_currentStep := Some ''event_extraction'',
                      out_messages := [''What is the date of your event?'']\<rparr>)]"
    unfolding R by simp
  ultimately show ?thesis by simp
qed

end
